(* ===== verification/Mma_Prelude.thy ===== *)
theory Mma_Prelude
  imports Main "HOL-Library.Word"
begin

text \<open>
  Vocabulary shared by every theory of the development: the machine types of the Go source,
  the three-way outcome of a Go call (a value, an error value, a panic), packed bits inside a
  byte slice, big-endian 16-bit fields, and the word and list lemmas the component proofs rest on.
\<close>

unbundle bit_operations_syntax

named_theorems outcome_simps
named_theorems loop_simps
named_theorems layout_simps
named_theorems wf_simps

section \<open>Machine types and outcomes\<close>

type_synonym u8 = "8 word"
type_synonym u16 = "16 word"
type_synonym u32 = "32 word"
type_synonym bytes = "8 word list"

text \<open>
  A Go function that returns \<open>(value, error)\<close> either returns a value, returns an error, or does
  not return because an index was out of range or a nil pointer was dereferenced. No goroutine of
  the program recovers from a panic, so a panic ends the process.
\<close>

datatype ('e, 'a) outcome = Ok 'a | Err 'e | Panic

definition no_panic :: "('e, 'a) outcome \<Rightarrow> bool" where
  "no_panic r = (case r of Panic \<Rightarrow> False | _ \<Rightarrow> True)"

lemma no_panic_simps [simp]:
  "no_panic (Ok x)" "no_panic (Err e)" "\<not> no_panic Panic"
  by (simp_all add: no_panic_def)

definition is_ok :: "('e, 'a) outcome \<Rightarrow> bool" where
  "is_ok r = (case r of Ok _ \<Rightarrow> True | _ \<Rightarrow> False)"

lemma is_ok_simps [simp]:
  "is_ok (Ok x)" "\<not> is_ok (Err e)" "\<not> is_ok Panic"
  by (simp_all add: is_ok_def)

lemma is_ok_iff: "is_ok r \<longleftrightarrow> (\<exists>x. r = Ok x)"
  by (cases r) auto

section \<open>Words\<close>

lemma u16_bound [simp]: "unat (x :: u16) < 65536"
  using unsigned_less [of x] by simp

lemma u8_bound [simp]: "unat (x :: u8) < 256"
  using unsigned_less [of x] by simp

lemma unat_u16_to_u32 [simp]: "unat (ucast (x :: u16) :: u32) = unat x"
  by (simp add: unsigned_ucast_eq take_bit_nat_eq_self_iff less_trans [OF u16_bound])

lemma unat_u8_to_u16 [simp]: "unat (ucast (x :: u8) :: u16) = unat x"
  by (simp add: unsigned_ucast_eq take_bit_nat_eq_self_iff less_trans [OF u8_bound])

lemma unat_sum_u32 [simp]:
  "unat (ucast (x :: u16) + ucast (y :: u16) :: u32) = unat x + unat y"
proof -
  have "unat x + unat y < 2 ^ 32"
    using u16_bound [of x] u16_bound [of y] by (simp del: u16_bound)
  then show ?thesis
    using unat_add_lem [of "ucast x :: u32" "ucast y :: u32"] by simp
qed

lemma unat_of_nat_u16 [simp]: "n < 65536 \<Longrightarrow> unat (of_nat n :: u16) = n"
  by (simp add: unat_of_nat)

lemma of_nat_u16_eq_0 [simp]: "n < 65536 \<Longrightarrow> (of_nat n :: u16) = 0 \<longleftrightarrow> n = 0"
  using unat_of_nat_u16 [of n] unat_eq_zero [of "of_nat n :: u16"] by (simp del: unat_of_nat_u16)

lemma unat_succ_u16: "i < (n :: u16) \<Longrightarrow> unat (i + 1) = Suc (unat i)"
proof -
  assume "i < n"
  then have "unat i + 1 < 65536"
    using u16_bound [of n] by (simp add: word_less_nat_alt del: u16_bound)
  then show ?thesis
    by (subst (asm) unat_1 [where 'a = 16, symmetric]) (simp add: unat_word_ariths)
qed

lemma u16_plus_no_wrap: "unat (a :: u16) + unat b < 65536 \<Longrightarrow> unat (a + b) = unat a + unat b"
  by (subst unat_add_lem [symmetric]) simp

text \<open>The termination argument of every counting loop \<open>for i := uint16(0); i < n; i++\<close>.\<close>

lemma u16_loop_measure [loop_simps]: "i < (n :: u16) \<Longrightarrow> unat n - unat (i + 1) < unat n - unat i"
  by (simp add: unat_succ_u16 word_less_nat_alt)

section \<open>Packed bits of a byte slice, least significant bit first\<close>

definition bit_at :: "bytes \<Rightarrow> nat \<Rightarrow> bool" where
  "bit_at bs k = (k div 8 < length bs \<and> bit (bs ! (k div 8)) (k mod 8))"

definition put_bit :: "bytes \<Rightarrow> nat \<Rightarrow> bool \<Rightarrow> bytes" where
  "put_bit bs k b = bs[k div 8 :=
     (if b then bs ! (k div 8) OR push_bit (k mod 8) 1
      else bs ! (k div 8) AND NOT (push_bit (k mod 8) 1))]"

lemma length_put_bit [simp]: "length (put_bit bs k b) = length bs"
  by (simp add: put_bit_def)

lemma bit_at_put_bit:
  assumes "k < 8 * length bs"
  shows "bit_at (put_bit bs k b) j = (if j = k then b else bit_at bs j)"
proof -
  have k: "k div 8 < length bs" using assms by (simp add: less_mult_imp_div_less mult.commute)
  have split: "j = k \<longleftrightarrow> j div 8 = k div 8 \<and> j mod 8 = k mod 8"
    by (metis mult_div_mod_eq)
  show ?thesis
  proof (cases "j div 8 = k div 8")
    case True
    with k show ?thesis by (auto simp: bit_at_def put_bit_def split bit_simps)
  next
    case False
    with k show ?thesis by (simp add: bit_at_def put_bit_def split)
  qed
qed

lemma put_bit_out: "length bs \<le> k div 8 \<Longrightarrow> put_bit bs k b = bs"
  by (simp add: put_bit_def list_update_beyond)

lemma bit_at_out: "8 * length bs \<le> k \<Longrightarrow> \<not> bit_at bs k"
  by (auto simp: bit_at_def)

lemma bit_at_take:
  "bit_at (take n bs) k = (k div 8 < n \<and> bit_at bs k)"
  by (auto simp: bit_at_def)

lemma bit_at_append:
  "bit_at (xs @ ys) k =
     (if k < 8 * length xs then bit_at xs k else bit_at ys (k - 8 * length xs))"
proof (cases "k < 8 * length xs")
  case True
  then have "k div 8 < length xs" by linarith
  with True show ?thesis by (simp add: bit_at_def nth_append)
next
  case False
  then obtain r where k: "k = 8 * length xs + r"
    by (metis le_Suc_ex not_less)
  then have "k div 8 = length xs + r div 8" "k mod 8 = r mod 8"
    by simp_all
  with k show ?thesis by (simp add: bit_at_def nth_append)
qed

lemma bit_at_replicate_zero [simp]: "\<not> bit_at (replicate n 0) k"
  by (simp add: bit_at_def)

text \<open>The two byte slices with the same length and the same bits are the same slice.\<close>

lemma bytes_eq_by_bits:
  assumes "length xs = length ys" and "\<And>k. k < 8 * length xs \<Longrightarrow> bit_at xs k = bit_at ys k"
  shows "xs = ys"
proof (rule nth_equalityI)
  fix i assume i: "i < length xs"
  show "xs ! i = ys ! i"
  proof (rule bit_word_eqI)
    fix n assume "n < LENGTH(8)"
    then have n: "n < 8" by simp
    have "(8 * i + n) div 8 = i" "(8 * i + n) mod 8 = n" using n by auto
    moreover have "8 * i + n < 8 * length xs" using i n by linarith
    ultimately show "bit (xs ! i) n = bit (ys ! i) n"
      using assms(2) [of "8 * i + n"] assms(1) i by (simp add: bit_at_def)
  qed
qed (rule assms(1))

section \<open>Big-endian 16-bit fields (encoding/binary)\<close>

text \<open>
  \<open>binary.BigEndian.Uint16\<close> and \<open>binary.BigEndian.PutUint16\<close>: \<open>be16 bs i\<close> reads the two bytes
  at offset \<open>i\<close> and \<open>be16_bytes v\<close> are the two bytes written for \<open>v\<close>.
\<close>

definition be16 :: "bytes \<Rightarrow> nat \<Rightarrow> u16" where
  "be16 bs i = ucast (bs ! Suc i) OR push_bit 8 (ucast (bs ! i))"

definition be16_bytes :: "u16 \<Rightarrow> bytes" where
  "be16_bytes v = [ucast (drop_bit 8 v), ucast v]"

definition put_be16 :: "bytes \<Rightarrow> nat \<Rightarrow> u16 \<Rightarrow> bytes" where
  "put_be16 bs i v = bs[i := ucast (drop_bit 8 v), Suc i := ucast v]"

lemma length_be16_bytes [simp]: "length (be16_bytes v) = 2"
  by (simp add: be16_bytes_def)

lemma length_put_be16 [simp]: "length (put_be16 bs i v) = length bs"
  by (simp add: put_be16_def)

lemma be16_join [simp]:
  "ucast (ucast (v :: u16) :: u8) OR push_bit 8 (ucast (ucast (drop_bit 8 v) :: u8)) = v"
  by (rule bit_word_eqI) (auto simp: bit_simps)

lemma be16_split_low [simp]: "ucast (ucast (b :: u8) OR push_bit 8 (ucast (a :: u8)) :: u16) = b"
  by (rule bit_word_eqI) (auto simp: bit_simps)

lemma be16_split_high [simp]:
  "ucast (drop_bit 8 (ucast (b :: u8)) OR drop_bit 8 (push_bit 8 (ucast (a :: u8))) :: u16) = a"
  by (rule bit_word_eqI) (auto simp: bit_simps dest: bit_imp_le_length)

lemma be16_bytes_be16: "Suc i < length bs \<Longrightarrow> be16_bytes (be16 bs i) = [bs ! i, bs ! Suc i]"
  by (simp add: be16_bytes_def be16_def)

text \<open>Fields laid out one after the other.\<close>

lemma be16_field [simp]:
  "be16 (be16_bytes v @ xs) 0 = v"
  "be16 (be16_bytes v @ xs) 2 = be16 xs 0"
  "be16 (be16_bytes v @ xs) 4 = be16 xs 2"
  by (simp_all add: be16_def be16_bytes_def nth_Cons')

lemma nth_field [simp]:
  "(be16_bytes v @ xs) ! 4 = xs ! 2" "(be16_bytes v @ xs) ! 6 = xs ! 4"
  "(be16_bytes v @ xs) ! 2 = xs ! 0"
  by (simp_all add: nth_append)

lemma drop_field [simp]:
  "drop 5 (be16_bytes v @ xs) = drop 3 xs" "drop 3 (be16_bytes v @ xs) = drop 1 xs"
  by simp_all

lemma be16_of_bytes [simp]: "be16 (be16_bytes v) 0 = v"
  by (simp add: be16_def be16_bytes_def)

lemma be16_bytes_of [simp]: "be16_bytes (be16 [a, b] 0) = [a, b]"
  by (simp add: be16_def be16_bytes_def)

lemma be16_put:
  assumes "Suc i < length bs"
  shows "be16 (put_be16 bs i v) i = v"
  using assms by (simp add: be16_def put_be16_def)

lemma be16_put_other:
  assumes "Suc i < j \<or> Suc j < i"
  shows "be16 (put_be16 bs i v) j = be16 bs j"
  using assms by (auto simp: be16_def put_be16_def)

lemma be16_append_left: "Suc i < length xs \<Longrightarrow> be16 (xs @ ys) i = be16 xs i"
  by (simp add: be16_def nth_append)

lemma be16_append_right: "be16 (xs @ ys) (length xs + i) = be16 ys i"
  by (simp add: be16_def nth_append)

section \<open>Overwriting a segment of a list\<close>

text \<open>\<open>copy(xs[n:], vs)\<close> when the segment fits.\<close>

definition overwrite :: "nat \<Rightarrow> 'a list \<Rightarrow> 'a list \<Rightarrow> 'a list" where
  "overwrite n vs xs = take n xs @ vs @ drop (n + length vs) xs"

lemma length_overwrite [simp]: "n + length vs \<le> length xs \<Longrightarrow> length (overwrite n vs xs) = length xs"
  by (simp add: overwrite_def)

lemma overwrite_Nil [simp]: "overwrite n [] xs = xs"
  by (simp add: overwrite_def)

lemma overwrite_Cons:
  assumes "n + length (v # vs) \<le> length xs"
  shows "overwrite n (v # vs) xs = overwrite (Suc n) vs (xs[n := v])"
  using assms by (simp add: overwrite_def take_Suc_conv_app_nth)

lemma nth_overwrite:
  assumes "n + length vs \<le> length xs" and "k < length xs"
  shows "overwrite n vs xs ! k = (if n \<le> k \<and> k < n + length vs then vs ! (k - n) else xs ! k)"
  using assms by (auto simp: overwrite_def nth_append)

lemma overwrite_full: "length vs = length xs \<Longrightarrow> overwrite 0 vs xs = vs"
  by (simp add: overwrite_def)

lemma take_drop_Cons:
  assumes "i < c" and "n + c \<le> length xs"
  shows "take (c - i) (drop (n + i) xs) = xs ! (n + i) # take (c - Suc i) (drop (n + Suc i) xs)"
proof -
  have "drop (n + i) xs = xs ! (n + i) # drop (n + Suc i) xs"
    using assms by (simp add: Cons_nth_drop_Suc)
  moreover have "c - i = Suc (c - Suc i)" using assms by simp
  ultimately show ?thesis by simp
qed

section \<open>Sequences of registers and of bits as bytes\<close>

text \<open>The wire form of a list of registers (two bytes each, high byte first) and its inverse.\<close>

definition regs_bytes :: "u16 list \<Rightarrow> bytes" where
  "regs_bytes vs = concat (map be16_bytes vs)"

fun bytes_regs :: "bytes \<Rightarrow> u16 list" where
  "bytes_regs (a # b # bs) = be16 [a, b] 0 # bytes_regs bs"
| "bytes_regs _ = []"

lemma regs_bytes_simps [simp]:
  "regs_bytes [] = []" "regs_bytes (v # vs) = be16_bytes v @ regs_bytes vs"
  by (simp_all add: regs_bytes_def)

lemma length_regs_bytes [simp]: "length (regs_bytes vs) = 2 * length vs"
  by (induction vs) simp_all

lemma bytes_regs_bytes [simp]: "bytes_regs (regs_bytes vs) = vs"
  by (induction vs) (simp_all add: be16_bytes_def be16_def)

lemma regs_bytes_regs: "even (length bs) \<Longrightarrow> regs_bytes (bytes_regs bs) = bs"
  by (induction bs rule: bytes_regs.induct) simp_all

lemma length_bytes_regs [simp]: "length (bytes_regs bs) = length bs div 2"
  by (induction bs rule: bytes_regs.induct) simp_all

lemma be16_Cons_Cons [simp]: "be16 (a # b # bs) (Suc (Suc i)) = be16 bs i"
  by (simp add: be16_def)

lemma be16_Cons_0: "be16 (a # b # bs) 0 = be16 [a, b] 0"
  by (simp add: be16_def)

lemma nth_bytes_regs: "k < length bs div 2 \<Longrightarrow> bytes_regs bs ! k = be16 bs (2 * k)"
proof (induction bs arbitrary: k rule: bytes_regs.induct)
  case (1 a b bs)
  then show ?case by (cases k) (simp_all add: be16_Cons_0 [of a b bs])
qed simp_all

lemma be16_regs_bytes: "k < length vs \<Longrightarrow> be16 (regs_bytes vs) (2 * k) = vs ! k"
  using nth_bytes_regs [of k "regs_bytes vs"] by simp

lemma put_be16_overwrite:
  assumes "2 + n + 2 * length vs \<le> length xs"
  shows "overwrite n (regs_bytes (v # vs)) xs = overwrite (n + 2) (regs_bytes vs) (put_be16 xs n v)"
  using assms by (simp add: be16_bytes_def overwrite_Cons put_be16_def)

text \<open>The wire form of a list of bits: eight to a byte, the first one in bit 0.\<close>

definition pack_bits :: "bool list \<Rightarrow> bytes" where
  "pack_bits vs =
     fold (\<lambda>k bs. put_bit bs k (vs ! k)) [0..<length vs] (replicate ((length vs + 7) div 8) 0)"

lemma length_fold_put_bit [simp]: "length (fold (\<lambda>k bs. put_bit bs k (f k)) ks bs) = length bs"
  by (induction ks arbitrary: bs) simp_all

lemma length_pack_bits [simp]: "length (pack_bits vs) = (length vs + 7) div 8"
  by (simp add: pack_bits_def)

lemma bit_at_fold_put_bit:
  "n \<le> 8 * length bs \<Longrightarrow>
    bit_at (fold (\<lambda>k bs. put_bit bs k (f k)) [0..<n] bs) j = (if j < n then f j else bit_at bs j)"
proof (induction n)
  case (Suc n)
  then have "n < 8 * length (fold (\<lambda>k bs. put_bit bs k (f k)) [0..<n] bs)" by simp
  from bit_at_put_bit [OF this] Suc show ?case by (simp add: less_Suc_eq)
qed simp

lemma bit_at_pack_bits: "bit_at (pack_bits vs) j = (j < length vs \<and> vs ! j)"
proof -
  have "length vs \<le> 8 * length (replicate ((length vs + 7) div 8) (0 :: u8))"
    unfolding length_replicate by linarith
  from bit_at_fold_put_bit [OF this] show ?thesis by (simp add: pack_bits_def)
qed

end
