(* ===== verification/GoNet.thy ===== *)
theory GoNet
  imports Mma_Prelude
begin

text \<open>
  The parts of Go's standard library the program parses text with: \<open>strings.TrimSpace\<close>,
  \<open>strings.ToLower\<close>, \<open>strings.Contains\<close>, \<open>strconv.Atoi\<close>, \<open>net.SplitHostPort\<close> and the address and
  prefix types of \<open>net/netip\<close>. A Go string is a list of characters (bytes); white space and case
  are those of ASCII text. A parser returns \<open>None\<close> where the library returns an error.
\<close>

section \<open>strings and strconv\<close>

definition is_space :: "char \<Rightarrow> bool" where
  "is_space c \<longleftrightarrow> (of_char c :: nat) \<in> {9, 10, 11, 12, 13, 32}"

definition TrimSpace :: "string \<Rightarrow> string" where
  "TrimSpace s = rev (dropWhile is_space (rev (dropWhile is_space s)))"

definition lower_char :: "char \<Rightarrow> char" where
  "lower_char c =
     (if (65 :: nat) \<le> of_char c \<and> of_char c \<le> (90 :: nat) then char_of (of_char c + 32 :: nat) else c)"

definition ToLower :: "string \<Rightarrow> string" where
  "ToLower s = map lower_char s"

definition digit_val :: "char \<Rightarrow> nat option" where
  "digit_val c =
     (if (48 :: nat) \<le> of_char c \<and> of_char c \<le> (57 :: nat) then Some (of_char c - 48) else None)"

definition hex_val :: "char \<Rightarrow> nat option" where
  "hex_val c =
     (let n = (of_char c :: nat) in
      if 48 \<le> n \<and> n \<le> 57 then Some (n - 48)
      else if 97 \<le> n \<and> n \<le> 102 then Some (n - 97 + 10)
      else if 65 \<le> n \<and> n \<le> 70 then Some (n - 65 + 10)
      else None)"

fun digits_val :: "string \<Rightarrow> nat \<Rightarrow> nat option" where
  "digits_val [] acc = Some acc"
| "digits_val (c # cs) acc =
     (case digit_val c of None \<Rightarrow> None | Some d \<Rightarrow> digits_val cs (acc * 10 + d))"

text \<open>\<open>strconv.Atoi\<close>: an optional sign, at least one digit, a value that fits \<open>int64\<close>.\<close>

definition Atoi :: "string \<Rightarrow> int option" where
  "Atoi s =
     (let neg = (s \<noteq> [] \<and> hd s = CHR ''-'');
          ds = (if s \<noteq> [] \<and> (hd s = CHR ''-'' \<or> hd s = CHR ''+'') then tl s else s)
      in if ds = [] then None
         else (case digits_val ds 0 of None \<Rightarrow> None
               | Some n \<Rightarrow>
                   if neg then (if int n \<le> 2 ^ 63 then Some (- int n) else None)
                   else (if int n < 2 ^ 63 then Some (int n) else None)))"

section \<open>net.SplitHostPort\<close>

text \<open>Index of the first and of the last occurrence of a byte.\<close>

fun IndexByte :: "string \<Rightarrow> char \<Rightarrow> nat option" where
  "IndexByte [] c = None"
| "IndexByte (x # xs) c = (if x = c then Some 0 else map_option Suc (IndexByte xs c))"

definition LastIndexByte :: "string \<Rightarrow> char \<Rightarrow> nat option" where
  "LastIndexByte s c = map_option (\<lambda>k. length s - Suc k) (IndexByte (rev s) c)"

definition SplitHostPort :: "string \<Rightarrow> (string \<times> string) option" where
  "SplitHostPort hostport =
     (case LastIndexByte hostport CHR '':'' of None \<Rightarrow> None
      | Some i \<Rightarrow>
        let checked = (\<lambda>host j k.
              if CHR ''['' \<in> set (drop j hostport) then None
              else if CHR '']'' \<in> set (drop k hostport) then None
              else Some (host, drop (Suc i) hostport))
        in if hd hostport = CHR ''['' then
             (case IndexByte hostport CHR '']'' of None \<Rightarrow> None
              | Some endx \<Rightarrow>
                  if Suc endx = length hostport then None
                  else if Suc endx = i then checked (take (endx - 1) (tl hostport)) 1 (Suc endx)
                  else None)
           else if CHR '':'' \<in> set (take i hostport) then None
           else checked (take i hostport) 0 0)"

section \<open>net/netip\<close>

text \<open>
  \<open>netip.Addr\<close>: the zero value, an IPv4 address, or an IPv6 address with its zone (empty when
  there is none). \<open>netip.Prefix\<close>: an address without zone and a length, \<open>None\<close> when invalid.
\<close>

datatype Addr = AddrZero | AddrV4 "32 word" | AddrV6 "128 word" string

record Prefix =
  pfx_ip :: Addr
  pfx_bits :: "nat option"

definition Addr_IsValid :: "Addr \<Rightarrow> bool" where
  "Addr_IsValid a \<longleftrightarrow> a \<noteq> AddrZero"

fun Addr_Is6 :: "Addr \<Rightarrow> bool" where
  "Addr_Is6 (AddrV6 _ _) = True"
| "Addr_Is6 _ = False"

fun Addr_BitLen :: "Addr \<Rightarrow> nat" where
  "Addr_BitLen AddrZero = 0"
| "Addr_BitLen (AddrV4 _) = 32"
| "Addr_BitLen (AddrV6 _ _) = 128"

fun Addr_hasZone :: "Addr \<Rightarrow> bool" where
  "Addr_hasZone (AddrV6 _ z) = (z \<noteq> [])"
| "Addr_hasZone _ = False"

fun Addr_withoutZone :: "Addr \<Rightarrow> Addr" where
  "Addr_withoutZone (AddrV6 a _) = AddrV6 a []"
| "Addr_withoutZone a = a"

definition PrefixFrom :: "Addr \<Rightarrow> nat \<Rightarrow> Prefix" where
  "PrefixFrom ip bits =
     \<lparr>pfx_ip = Addr_withoutZone ip,
      pfx_bits = (if ip \<noteq> AddrZero \<and> bits \<le> Addr_BitLen ip then Some bits else None)\<rparr>"

text \<open>Clear all but the first \<open>n\<close> bits of an address.\<close>

definition keep_high :: "nat \<Rightarrow> 'a::len word \<Rightarrow> 'a word" where
  "keep_high n a = a AND NOT (mask (LENGTH('a) - n))"

definition Prefix_Masked :: "Prefix \<Rightarrow> Prefix" where
  "Prefix_Masked p =
     (case pfx_bits p of None \<Rightarrow> \<lparr>pfx_ip = AddrZero, pfx_bits = None\<rparr>
      | Some n \<Rightarrow>
         (case pfx_ip p of
            AddrZero \<Rightarrow> \<lparr>pfx_ip = AddrZero, pfx_bits = None\<rparr>
          | AddrV4 a \<Rightarrow> \<lparr>pfx_ip = AddrV4 (keep_high n a), pfx_bits = Some n\<rparr>
          | AddrV6 a z \<Rightarrow> \<lparr>pfx_ip = AddrV6 (keep_high n a) [], pfx_bits = Some n\<rparr>))"

definition Prefix_Contains :: "Prefix \<Rightarrow> Addr \<Rightarrow> bool" where
  "Prefix_Contains p ip =
     (case pfx_bits p of None \<Rightarrow> False
      | Some n \<Rightarrow>
         if Addr_hasZone ip then False
         else (case (pfx_ip p, ip) of
                 (AddrV4 a, AddrV4 b) \<Rightarrow> drop_bit (32 - n) (a XOR b) = 0
               | (AddrV6 a _, AddrV6 b _) \<Rightarrow> (a XOR b) AND NOT (mask (128 - n)) = 0
               | _ \<Rightarrow> False))"

subsection \<open>Parsing addresses\<close>

text \<open>
  The octet loop of \<open>parseIPv4Fields\<close>: \<open>dot\<close> holds at the start and after a dot, \<open>val\<close> and \<open>digs\<close>
  are the octet so far, \<open>octets\<close> the finished ones.
\<close>

fun parseIPv4Fields :: "string \<Rightarrow> bool \<Rightarrow> nat \<Rightarrow> nat \<Rightarrow> u8 list \<Rightarrow> u8 list option" where
  "parseIPv4Fields [] dot val digs octets =
     (if length octets < 3 then None else Some (octets @ [of_nat val]))"
| "parseIPv4Fields (c # cs) dot val digs octets =
     (case digit_val c of
        Some d \<Rightarrow>
          if digs = 1 \<and> val = 0 then None
          else if val * 10 + d > 255 then None
          else parseIPv4Fields cs False (val * 10 + d) (Suc digs) octets
      | None \<Rightarrow>
          if c = CHR ''.'' then
            if dot \<or> cs = [] then None
            else if length octets = 3 then None
            else parseIPv4Fields cs True 0 0 (octets @ [of_nat val])
          else None)"

definition bytes_be :: "u8 list \<Rightarrow> 'a::len word" where
  "bytes_be bs = fold (\<lambda>b acc. push_bit 8 acc OR ucast b) bs 0"

definition parseIPv4 :: "string \<Rightarrow> Addr option" where
  "parseIPv4 s = map_option (\<lambda>fs. AddrV4 (bytes_be fs)) (parseIPv4Fields s True 0 0 [])"

text \<open>One group of hex digits of an IPv6 address: the rest, the number of digits, the value.\<close>

fun scan_hex :: "string \<Rightarrow> nat \<Rightarrow> nat \<Rightarrow> (string \<times> nat \<times> nat) option" where
  "scan_hex [] off acc = Some ([], off, acc)"
| "scan_hex (c # cs) off acc =
     (case hex_val c of None \<Rightarrow> Some (c # cs, off, acc)
      | Some d \<Rightarrow>
          if off > 3 then None
          else if acc * 16 + d > 65535 then None
          else scan_hex cs (Suc off) (acc * 16 + d))"

text \<open>
  The group loop of \<open>parseIPv6\<close>; \<open>n\<close> is the number of groups that still fit, so the bytes written
  so far are \<open>ip\<close> with \<open>length ip = 16 - 2 * n\<close>. The result is what is left of the text, the bytes
  and the position of the ellipsis.
\<close>

fun parseIPv6_groups :: "nat \<Rightarrow> string \<Rightarrow> u8 list \<Rightarrow> nat option
    \<Rightarrow> (string \<times> u8 list \<times> nat option) option" where
  "parseIPv6_groups 0 s ip ell = Some (s, ip, ell)"
| "parseIPv6_groups (Suc n) s ip ell =
     (case scan_hex s 0 0 of None \<Rightarrow> None
      | Some (rest, off, acc) \<Rightarrow>
        if off = 0 then None
        else if rest \<noteq> [] \<and> hd rest = CHR ''.'' then
          if ell = None \<and> length ip \<noteq> 12 then None
          else if length ip + 4 > 16 then None
          else (case parseIPv4Fields s True 0 0 [] of None \<Rightarrow> None
                | Some fs \<Rightarrow> Some ([], ip @ fs, ell))
        else
          let ip' = ip @ [of_nat (acc div 256), of_nat acc]
          in (case rest of
                [] \<Rightarrow> Some ([], ip', ell)
              | c # cs \<Rightarrow>
                  if c \<noteq> CHR '':'' \<or> cs = [] then None
                  else if hd cs = CHR '':'' then
                    if ell \<noteq> None then None
                    else if tl cs = [] then Some ([], ip', Some (length ip'))
                    else parseIPv6_groups n (tl cs) ip' (Some (length ip'))
                  else parseIPv6_groups n cs ip' ell))"

definition parseIPv6 :: "string \<Rightarrow> Addr option" where
  "parseIPv6 s0 =
     (let zs = (case IndexByte s0 CHR ''%'' of None \<Rightarrow> Some (s0, [])
                | Some i \<Rightarrow> if drop (Suc i) s0 = [] then None
                           else Some (take i s0, drop (Suc i) s0))
      in case zs of None \<Rightarrow> None
         | Some (s, zone) \<Rightarrow>
           let lead = (take 2 s = ''::'');
               s' = (if lead then drop 2 s else s);
               ell = (if lead then Some 0 else None)
           in if lead \<and> s' = [] then Some (AddrV6 0 zone)
              else (case parseIPv6_groups 8 s' [] ell of None \<Rightarrow> None
                    | Some (rest, ip, ell') \<Rightarrow>
                        if rest \<noteq> [] then None
                        else if length ip < 16 then
                          (case ell' of None \<Rightarrow> None
                           | Some e \<Rightarrow> Some (AddrV6 (bytes_be
                               (take e ip @ replicate (16 - length ip) 0 @ drop e ip)) zone))
                        else if ell' \<noteq> None then None
                        else Some (AddrV6 (bytes_be ip) zone)))"

text \<open>\<open>ParseAddr\<close> picks the parser by the first dot, colon or percent sign.\<close>

fun ParseAddr_scan :: "string \<Rightarrow> string \<Rightarrow> Addr option" where
  "ParseAddr_scan [] s = None"
| "ParseAddr_scan (c # cs) s =
     (if c = CHR ''.'' then parseIPv4 s
      else if c = CHR '':'' then parseIPv6 s
      else if c = CHR ''%'' then None
      else ParseAddr_scan cs s)"

definition ParseAddr :: "string \<Rightarrow> Addr option" where
  "ParseAddr s = ParseAddr_scan s s"

definition ParsePrefix :: "string \<Rightarrow> Prefix option" where
  "ParsePrefix s =
     (case LastIndexByte s CHR ''/'' of None \<Rightarrow> None
      | Some i \<Rightarrow>
        (case ParseAddr (take i s) of None \<Rightarrow> None
         | Some ip \<Rightarrow>
           if Addr_hasZone ip then None
           else let b = drop (Suc i) s
                in if length b > 1 \<and> \<not> (hd b \<in> set ''123456789'') then None
                   else (case Atoi b of None \<Rightarrow> None
                         | Some n \<Rightarrow>
                            if n < 0 \<or> n > (if Addr_Is6 ip then 128 else 32) then None
                            else Some (PrefixFrom ip (nat n)))))"

end
