(* ===== verification/MemLayout.thy ===== *)
theory MemLayout
  imports Mma_Prelude
begin

text \<open>
  internal/memorycore/area.go, layout.go, memory_id.go and errors.go: the four memory areas, the
  address window of an area, the identity of a memory and the error values of the package.
\<close>

section \<open>Errors (errors.go)\<close>

datatype mem_error =
    ErrUnknownMemoryID | ErrAreaNotDefined | ErrInvalidArea
  | ErrCountZero | ErrDstTooSmall | ErrSrcTooSmall | ErrOutOfBounds
  | ErrStartOverflow | ErrSizeZero
  | ErrNilMemory | ErrEmptyPort | ErrUnitIDZero

section \<open>Areas (area.go)\<close>

text \<open>\<open>type Area uint8\<close>: any byte is an \<open>Area\<close>, five of them have names.\<close>

type_synonym Area = "8 word"

definition AreaInvalid :: Area where "AreaInvalid = 0"
definition AreaCoils :: Area where "AreaCoils = 1"
definition AreaDiscreteInputs :: Area where "AreaDiscreteInputs = 2"
definition AreaHoldingRegs :: Area where "AreaHoldingRegs = 3"
definition AreaInputRegs :: Area where "AreaInputRegs = 4"

lemmas area_defs = AreaInvalid_def AreaCoils_def AreaDiscreteInputs_def AreaHoldingRegs_def
  AreaInputRegs_def

definition IsBitArea :: "Area \<Rightarrow> bool" where
  "IsBitArea a \<longleftrightarrow> a = AreaCoils \<or> a = AreaDiscreteInputs"

definition IsRegArea :: "Area \<Rightarrow> bool" where
  "IsRegArea a \<longleftrightarrow> a = AreaHoldingRegs \<or> a = AreaInputRegs"

definition AreaString :: "Area \<Rightarrow> string" where
  "AreaString a =
     (if a = AreaCoils then ''coils''
      else if a = AreaDiscreteInputs then ''discrete_inputs''
      else if a = AreaHoldingRegs then ''holding_registers''
      else if a = AreaInputRegs then ''input_registers''
      else ''invalid'')"

lemma area_distinct [simp]:
  "AreaCoils \<noteq> AreaDiscreteInputs" "AreaDiscreteInputs \<noteq> AreaCoils"
  "AreaCoils \<noteq> AreaHoldingRegs" "AreaHoldingRegs \<noteq> AreaCoils"
  "AreaCoils \<noteq> AreaInputRegs" "AreaInputRegs \<noteq> AreaCoils"
  "AreaDiscreteInputs \<noteq> AreaHoldingRegs" "AreaHoldingRegs \<noteq> AreaDiscreteInputs"
  "AreaDiscreteInputs \<noteq> AreaInputRegs" "AreaInputRegs \<noteq> AreaDiscreteInputs"
  "AreaHoldingRegs \<noteq> AreaInputRegs" "AreaInputRegs \<noteq> AreaHoldingRegs"
  by (simp_all add: area_defs)

lemma bit_area_simps [simp]:
  "IsBitArea AreaCoils" "IsBitArea AreaDiscreteInputs"
  "\<not> IsBitArea AreaHoldingRegs" "\<not> IsBitArea AreaInputRegs"
  "IsRegArea AreaHoldingRegs" "IsRegArea AreaInputRegs"
  "\<not> IsRegArea AreaCoils" "\<not> IsRegArea AreaDiscreteInputs"
  by (simp_all add: IsBitArea_def IsRegArea_def)

lemma bit_reg_disjoint: "IsBitArea a \<Longrightarrow> \<not> IsRegArea a"
  by (auto simp: IsBitArea_def)

section \<open>Layouts (layout.go)\<close>

record AreaLayout =
  Start :: u16
  Size :: u16

definition Layout_Validate :: "AreaLayout \<Rightarrow> mem_error option" where
  "Layout_Validate l =
     (if Size l = 0 then Some ErrSizeZero
      else let endx = (ucast (Start l) + ucast (Size l) :: u32)
           in if endx > 0x10000 then Some ErrStartOverflow else None)"

definition Contains :: "AreaLayout \<Rightarrow> u16 \<Rightarrow> u16 \<Rightarrow> bool" where
  "Contains l address count =
     (if count = 0 then False
      else let start = (ucast (Start l) :: u32);
               endx = (ucast (Start l) + ucast (Size l) :: u32);
               a = (ucast address :: u32);
               reqEnd = a + ucast count
           in a \<ge> start \<and> reqEnd \<le> endx)"

definition Offset :: "AreaLayout \<Rightarrow> u16 \<Rightarrow> u16" where
  "Offset l address = ucast (ucast address - ucast (Start l) :: u32)"

definition lay_first :: "AreaLayout \<Rightarrow> nat" where
  "lay_first l = unat (Start l)"

definition lay_end :: "AreaLayout \<Rightarrow> nat" where
  "lay_end l = unat (Start l) + unat (Size l)"

lemma Layout_Validate_iff:
  "Layout_Validate l = None \<longleftrightarrow> Size l \<noteq> 0 \<and> lay_end l \<le> 65536"
  by (simp add: Layout_Validate_def Let_def lay_end_def word_less_nat_alt not_less)

lemma Contains_iff [layout_simps]:
  "Contains l address count \<longleftrightarrow>
     count \<noteq> 0 \<and> lay_first l \<le> unat address \<and> unat address + unat count \<le> lay_end l"
  by (simp add: Contains_def Let_def lay_first_def lay_end_def word_le_nat_alt)

lemma Offset_unat [layout_simps]:
  assumes "Contains l address count"
  shows "unat (Offset l address) = unat address - lay_first l"
proof -
  have le: "unat (Start l) \<le> unat address"
    using assms by (simp add: layout_simps lay_first_def)
  then have "unat (ucast address - ucast (Start l) :: u32) = unat address - unat (Start l)"
    by (subst unat_sub) (simp_all add: word_le_nat_alt)
  moreover have "unat address - unat (Start l) < 65536"
    using u16_bound [of address] by linarith
  ultimately show ?thesis
    by (simp add: Offset_def lay_first_def unsigned_ucast_eq take_bit_nat_eq_self_iff)
qed

lemma Offset_range:
  assumes "Contains l address count"
  shows "unat (Offset l address) + unat count \<le> unat (Size l)"
  using assms by (auto simp: Offset_unat [OF assms] layout_simps lay_first_def lay_end_def)

section \<open>Memory identities (memory_id.go)\<close>

record MemoryID =
  Port :: u16
  UnitID :: u16

text \<open>Identities in order: by port, then by unit.\<close>

instantiation MemoryID_ext :: (linorder) linorder
begin

definition less_eq_MemoryID_ext :: "'a MemoryID_scheme \<Rightarrow> 'a MemoryID_scheme \<Rightarrow> bool" where
  "a \<le> b \<longleftrightarrow> Port a < Port b \<or> Port a = Port b \<and> (UnitID a < UnitID b \<or>
     UnitID a = UnitID b \<and> MemoryID.more a \<le> MemoryID.more b)"

definition less_MemoryID_ext :: "'a MemoryID_scheme \<Rightarrow> 'a MemoryID_scheme \<Rightarrow> bool" where
  "a < b \<longleftrightarrow> a \<le> b \<and> \<not> b \<le> (a :: 'a MemoryID_scheme)"

instance
  by standard (auto simp: less_eq_MemoryID_ext_def less_MemoryID_ext_def)

end

definition MemoryID_Validate :: "MemoryID \<Rightarrow> mem_error option" where
  "MemoryID_Validate mid =
     (if Port mid = 0 then Some ErrEmptyPort
      else if UnitID mid = 0 then Some ErrUnitIDZero
      else None)"

lemma MemoryID_Validate_iff: "MemoryID_Validate mid = None \<longleftrightarrow> Port mid \<noteq> 0 \<and> UnitID mid \<noteq> 0"
  by (simp add: MemoryID_Validate_def)

end
