(* ===== verification/Config.thy ===== *)
theory Config
  imports GoNet MemLayout
begin

text \<open>
  internal/config/config.go and validate.go: the configuration tree and its structural validation.
  An \<open>error\<close> is \<open>None\<close> for nil; instead of formatted text it carries the data the text is made of.
  The legacy \<open>map[string]MemoryDefinition\<close> is the list of its entries in the order of iteration.
\<close>

section \<open>The configuration tree (config.go)\<close>

record CfgArea =
  ca_Start :: u16
  ca_Count :: u16

record StateSealingConfig =
  ss_Area :: string
  ss_Address :: u16

record PolicyRuleConfig =
  pr_ID :: string
  pr_SourceIP :: "string list"
  pr_AllowFC :: "u8 list"

record MemoryPolicyConfig =
  pc_Rules :: "PolicyRuleConfig list"

record MemoryDefinition =
  md_Port :: u16
  md_UnitID :: u16
  md_Coils :: CfgArea
  md_DiscreteInputs :: CfgArea
  md_HoldingRegs :: CfgArea
  md_InputRegs :: CfgArea
  md_StateSealing :: "StateSealingConfig option"
  md_Policy :: "MemoryPolicyConfig option"

record IngressGate =
  gate_ID :: string
  gate_Listen :: string
  gate_Memory :: "MemoryDefinition list"

type_synonym MemoryConfig = "(string \<times> MemoryDefinition) list"

record Config =
  cfg_Ingress :: "IngressGate list"
  cfg_Memories :: MemoryConfig

section \<open>Errors\<close>

datatype listen_error = NotHostPort | BadPort string | PortOutOfRange int

text \<open>Where in the configuration a definition stands: \<open>memory[key]\<close> or \<open>listeners[i](id).memory[j]\<close>.\<close>

datatype mem_path = LegacyPath string | ListenerPath nat string nat

datatype cfg_error =
    ConfigIsNil
  | IDRequired nat
  | DuplicateID nat string
  | ListenRequired nat
  | InvalidListen nat string string listen_error
  | PortMustBePositive mem_path
  | UnitIDTooLarge mem_path
  | AreaExceedsAddressSpace mem_path string u16 u16
  | SealingAreaNotCoil mem_path
  | SealingNeedsCoils mem_path
  | SealingAddressOutOfBounds mem_path u16 u16 u16
  | InvalidSource mem_path nat nat string
  | FunctionCodeZero mem_path nat nat
  | IdentityConflict u16 u16 mem_path mem_path

section \<open>parseListenPort (build\_authority\_policies.go)\<close>

definition parseListenPort :: "string \<Rightarrow> (listen_error, u16) outcome" where
  "parseListenPort listen =
     (case SplitHostPort listen of
        None \<Rightarrow> Err NotHostPort
      | Some (_, portStr) \<Rightarrow>
          (case Atoi portStr of
             None \<Rightarrow> Err (BadPort portStr)
           | Some n \<Rightarrow> if n < 1 \<or> n > 65535 then Err (PortOutOfRange n) else Ok (of_int n)))"

section \<open>Validation (validate.go)\<close>

fun validateIngress_loop ::
  "nat \<Rightarrow> IngressGate list \<Rightarrow> (string \<Rightarrow> unit option) \<Rightarrow> cfg_error option" where
  "validateIngress_loop i [] seen = None"
| "validateIngress_loop i (g # gs) seen =
     (if gate_ID g = [] then Some (IDRequired i)
      else if seen (gate_ID g) \<noteq> None then Some (DuplicateID i (gate_ID g))
      else if TrimSpace (gate_Listen g) = [] then Some (ListenRequired i)
      else if gate_Memory g \<noteq> [] then
        (case parseListenPort (gate_Listen g) of
           Err e \<Rightarrow> Some (InvalidListen i (gate_ID g) (gate_Listen g) e)
         | _ \<Rightarrow> validateIngress_loop (Suc i) gs (seen(gate_ID g \<mapsto> ())))
      else validateIngress_loop (Suc i) gs (seen(gate_ID g \<mapsto> ())))"

definition validateIngress :: "IngressGate list \<Rightarrow> cfg_error option" where
  "validateIngress gates = validateIngress_loop 0 gates Map.empty"

definition validateArea :: "mem_path \<Rightarrow> string \<Rightarrow> CfgArea \<Rightarrow> cfg_error option" where
  "validateArea memKey name a =
     (if ca_Count a = 0 then None
      else
        let end' = (ucast (ca_Start a) :: u32) + ucast (ca_Count a)
        in if end' > 0x10000 then Some (AreaExceedsAddressSpace memKey name (ca_Start a) (ca_Count a))
           else None)"

definition validateAreas :: "mem_path \<Rightarrow> MemoryDefinition \<Rightarrow> cfg_error option" where
  "validateAreas memKey d =
     (case validateArea memKey ''coils'' (md_Coils d) of Some e \<Rightarrow> Some e | None \<Rightarrow>
      case validateArea memKey ''discrete_inputs'' (md_DiscreteInputs d) of Some e \<Rightarrow> Some e | None \<Rightarrow>
      case validateArea memKey ''holding_registers'' (md_HoldingRegs d) of Some e \<Rightarrow> Some e | None \<Rightarrow>
      case validateArea memKey ''input_registers'' (md_InputRegs d) of Some e \<Rightarrow> Some e | None \<Rightarrow>
      None)"

definition validateStateSealing :: "mem_path \<Rightarrow> MemoryDefinition \<Rightarrow> cfg_error option" where
  "validateStateSealing memKey d =
     (case md_StateSealing d of
        None \<Rightarrow> None
      | Some ss \<Rightarrow>
          if ToLower (TrimSpace (ss_Area ss)) \<noteq> ''coil'' then Some (SealingAreaNotCoil memKey)
          else if ca_Count (md_Coils d) = 0 then Some (SealingNeedsCoils memKey)
          else
            let start = ca_Start (md_Coils d);
                count = ca_Count (md_Coils d);
                addr = ss_Address ss;
                endExclusive = (ucast start :: u32) + ucast count
            in if (ucast addr :: u32) < ucast start \<or> ucast addr \<ge> endExclusive
               then Some (SealingAddressOutOfBounds memKey addr start (ucast endExclusive))
               else None)"

text \<open>\<open>parseIPOrCIDR\<close> returns one of two unrelated types that its caller drops.\<close>

datatype ip_or_cidr = ACidr Prefix | AnAddr Addr

definition parseIPOrCIDR :: "string \<Rightarrow> ip_or_cidr option" where
  "parseIPOrCIDR s =
     (case ParsePrefix s of Some pfx \<Rightarrow> Some (ACidr pfx) | None \<Rightarrow>
      case ParseAddr s of Some addr \<Rightarrow> Some (AnAddr addr) | None \<Rightarrow> None)"

fun validateSources :: "mem_path \<Rightarrow> nat \<Rightarrow> nat \<Rightarrow> string list \<Rightarrow> cfg_error option" where
  "validateSources memKey i j [] = None"
| "validateSources memKey i j (raw # rest) =
     (let s = TrimSpace raw in
      if s = [] then validateSources memKey i (Suc j) rest
      else (case parseIPOrCIDR s of
              None \<Rightarrow> Some (InvalidSource memKey i j s)
            | Some _ \<Rightarrow> validateSources memKey i (Suc j) rest))"

fun validateFCs :: "mem_path \<Rightarrow> nat \<Rightarrow> nat \<Rightarrow> u8 list \<Rightarrow> cfg_error option" where
  "validateFCs memKey i j [] = None"
| "validateFCs memKey i j (fc # rest) =
     (if fc = 0 then Some (FunctionCodeZero memKey i j) else validateFCs memKey i (Suc j) rest)"

fun validateRules :: "mem_path \<Rightarrow> nat \<Rightarrow> PolicyRuleConfig list \<Rightarrow> cfg_error option" where
  "validateRules memKey i [] = None"
| "validateRules memKey i (r # rs) =
     (case validateSources memKey i 0 (pr_SourceIP r) of Some e \<Rightarrow> Some e | None \<Rightarrow>
      case validateFCs memKey i 0 (pr_AllowFC r) of Some e \<Rightarrow> Some e | None \<Rightarrow>
      validateRules memKey (Suc i) rs)"

definition validatePolicy :: "mem_path \<Rightarrow> MemoryPolicyConfig option \<Rightarrow> cfg_error option" where
  "validatePolicy memKey p =
     (case p of None \<Rightarrow> None | Some pc \<Rightarrow> validateRules memKey 0 (pc_Rules pc))"

definition validateLegacyMemoryDef :: "string \<Rightarrow> MemoryDefinition \<Rightarrow> cfg_error option" where
  "validateLegacyMemoryDef key d =
     (let memKey = LegacyPath key in
      if md_Port d = 0 then Some (PortMustBePositive memKey)
      else if md_UnitID d > 0xFF then Some (UnitIDTooLarge memKey)
      else
        (case validateAreas memKey d of Some e \<Rightarrow> Some e | None \<Rightarrow>
         case validateStateSealing memKey d of Some e \<Rightarrow> Some e | None \<Rightarrow>
         validatePolicy memKey (md_Policy d)))"

definition validateNestedMemoryDef ::
  "nat \<Rightarrow> nat \<Rightarrow> string \<Rightarrow> u16 \<Rightarrow> MemoryDefinition \<Rightarrow> cfg_error option" where
  "validateNestedMemoryDef li mi listenerID port d =
     (let memKey = ListenerPath li listenerID mi in
      if port = 0 then Some (PortMustBePositive memKey)
      else if md_UnitID d > 0xFF then Some (UnitIDTooLarge memKey)
      else
        (case validateAreas memKey d of Some e \<Rightarrow> Some e | None \<Rightarrow>
         case validateStateSealing memKey d of Some e \<Rightarrow> Some e | None \<Rightarrow>
         validatePolicy memKey (md_Policy d)))"

text \<open>The identities seen so far, each with the place of its definition.\<close>

record memIdentity =
  id_port :: u16
  id_unit :: u16

type_synonym seen_ids = "memIdentity \<Rightarrow> mem_path option"

definition note_id :: "u16 \<Rightarrow> u16 \<Rightarrow> mem_path \<Rightarrow> seen_ids \<Rightarrow> (cfg_error, seen_ids) outcome" where
  "note_id port unit path seen =
     (let i = \<lparr>id_port = port, id_unit = unit\<rparr> in
      case seen i of
        Some prev \<Rightarrow> Err (IdentityConflict port unit prev path)
      | None \<Rightarrow> Ok (seen(i \<mapsto> path)))"

fun validateLegacy_loop ::
  "(string \<times> MemoryDefinition) list \<Rightarrow> seen_ids \<Rightarrow> (cfg_error, seen_ids) outcome" where
  "validateLegacy_loop [] seen = Ok seen"
| "validateLegacy_loop ((key, d) # rest) seen =
     (case validateLegacyMemoryDef key d of Some e \<Rightarrow> Err e | None \<Rightarrow>
      case note_id (md_Port d) (md_UnitID d) (LegacyPath key) seen of
        Err e \<Rightarrow> Err e | Panic \<Rightarrow> Panic
      | Ok seen' \<Rightarrow> validateLegacy_loop rest seen')"

fun validateNested_loop ::
  "nat \<Rightarrow> string \<Rightarrow> u16 \<Rightarrow> nat \<Rightarrow> MemoryDefinition list \<Rightarrow> seen_ids \<Rightarrow> (cfg_error, seen_ids) outcome"
where
  "validateNested_loop li lid port mi [] seen = Ok seen"
| "validateNested_loop li lid port mi (d # ds) seen =
     (case validateNestedMemoryDef li mi lid port d of Some e \<Rightarrow> Err e | None \<Rightarrow>
      case note_id port (md_UnitID d) (ListenerPath li lid mi) seen of
        Err e \<Rightarrow> Err e | Panic \<Rightarrow> Panic
      | Ok seen' \<Rightarrow> validateNested_loop li lid port (Suc mi) ds seen')"

fun validateListeners_loop ::
  "nat \<Rightarrow> IngressGate list \<Rightarrow> seen_ids \<Rightarrow> (cfg_error, seen_ids) outcome" where
  "validateListeners_loop li [] seen = Ok seen"
| "validateListeners_loop li (l # ls) seen =
     (if gate_Memory l = [] then validateListeners_loop (Suc li) ls seen
      else
        (case parseListenPort (gate_Listen l) of
           Err e \<Rightarrow> Err (InvalidListen li (gate_ID l) (gate_Listen l) e)
         | Panic \<Rightarrow> Panic
         | Ok port \<Rightarrow>
             (case validateNested_loop li (gate_ID l) port 0 (gate_Memory l) seen of
                Err e \<Rightarrow> Err e | Panic \<Rightarrow> Panic
              | Ok seen' \<Rightarrow> validateListeners_loop (Suc li) ls seen')))"

definition validateAllMemories :: "Config \<Rightarrow> (cfg_error, unit) outcome" where
  "validateAllMemories cfg =
     (case validateLegacy_loop (cfg_Memories cfg) Map.empty of
        Err e \<Rightarrow> Err e | Panic \<Rightarrow> Panic
      | Ok seen \<Rightarrow>
          (case validateListeners_loop 0 (cfg_Ingress cfg) seen of
             Err e \<Rightarrow> Err e | Panic \<Rightarrow> Panic
           | Ok _ \<Rightarrow> Ok ()))"

definition Validate :: "Config option \<Rightarrow> (cfg_error, unit) outcome" where
  "Validate co =
     (case co of
        None \<Rightarrow> Err ConfigIsNil
      | Some cfg \<Rightarrow>
          (case validateIngress (cfg_Ingress cfg) of
             Some e \<Rightarrow> Err e
           | None \<Rightarrow> validateAllMemories cfg))"

section \<open>The loader (loader.go)\<close>

text \<open>
  The file system and the YAML library are parameters: \<open>readFile\<close> gives the contents of a path or an
  error, \<open>unmarshal\<close> the tree the bytes denote (starting from the zero tree) or an error.
\<close>

datatype ('e, 'f) load_error = ReadConfigFile 'e | ParseConfigYaml 'f

definition Load ::
  "(string \<Rightarrow> 'e + bytes) \<Rightarrow> (bytes \<Rightarrow> 'f + Config) \<Rightarrow> string \<Rightarrow> (('e, 'f) load_error, Config) outcome"
where
  "Load readFile unmarshal path =
     (case readFile path of
        Inl err \<Rightarrow> Err (ReadConfigFile err)
      | Inr data \<Rightarrow>
          (case unmarshal data of
             Inl err \<Rightarrow> Err (ParseConfigYaml err)
           | Inr cfg \<Rightarrow> Ok cfg))"

end
