(* ===== verification/MemBits.thy ===== *)
theory MemBits
  imports Mma_Prelude
begin

text \<open>
  internal/memorycore/bits.go: the size of a packed bit array and the two loops that move bits
  between byte slices. Indices, offsets and counts are \<open>uint16\<close> as in the source, so additions
  wrap; the lemmas say when they do not.
\<close>

section \<open>bytesForBits\<close>

text \<open>The addition \<open>n + 7\<close> is computed in \<open>uint16\<close> before the conversion to \<open>int\<close>.\<close>

definition bytesForBits :: "u16 \<Rightarrow> nat" where
  "bytesForBits n = (if n = 0 then 0 else unat ((n + 7) div 8))"

lemma unat_plus7_div8:
  "unat ((n + 7) div 8 :: u16) = (if unat n < 65529 then (unat n + 7) div 8 else 0)"
proof (cases "unat n < 65529")
  case True
  then have "unat (n + 7) = unat n + 7"
    by (simp add: u16_plus_no_wrap)
  with True show ?thesis by (simp add: unat_div_distrib)
next
  case False
  then have "unat (n + 7) = unat n + 7 - 65536"
    using u16_bound [of n] by (simp add: unat_word_ariths mod_if del: u16_bound)
  moreover have "unat n + 7 - 65536 < 8"
    using u16_bound [of n] by linarith
  ultimately show ?thesis using False by (simp add: unat_div_distrib)
qed

lemma bytesForBits_small: "unat n < 65529 \<Longrightarrow> bytesForBits n = (unat n + 7) div 8"
  by (auto simp: bytesForBits_def unat_plus7_div8)

lemma bytesForBits_large: "65529 \<le> unat n \<Longrightarrow> bytesForBits n = 0"
  by (auto simp: bytesForBits_def unat_plus7_div8)

lemma bytesForBits_covers: "unat n < 65529 \<Longrightarrow> unat n \<le> 8 * bytesForBits n"
  by (simp add: bytesForBits_small)

lemma bytesForBits_bound: "bytesForBits n \<le> 8191"
proof (cases "unat n < 65529")
  case True
  then show ?thesis by (simp add: bytesForBits_small)
qed (simp add: bytesForBits_large)

lemma bytesForBits_mono: "unat m \<le> unat n \<Longrightarrow> unat n < 65529 \<Longrightarrow> bytesForBits m \<le> bytesForBits n"
  by (simp add: bytesForBits_small div_le_mono)

section \<open>copyBits and writeBits\<close>

text \<open>
  \<open>byte(1 << (k % 8))\<close>, and the two assignments \<open>dst[j] |= mask\<close> and \<open>dst[j] &^= mask\<close>.
\<close>

definition bitMask :: "u16 \<Rightarrow> u8" where
  "bitMask k = push_bit (unat (k mod 8)) 1"

definition assignBit :: "bytes \<Rightarrow> nat \<Rightarrow> u8 \<Rightarrow> bool \<Rightarrow> bytes" where
  "assignBit dst j m b = dst[j := (if b then dst ! j OR m else dst ! j AND NOT m)]"

function copyBits_loop :: "u16 \<Rightarrow> bytes \<Rightarrow> bytes \<Rightarrow> u16 \<Rightarrow> u16 \<Rightarrow> bytes" where
  "copyBits_loop i dst src srcStart count =
     (if i < count then
        let srcBit = srcStart + i;
            dstBit = i;
            srcByte = unat (srcBit div 8);
            srcMask = bitMask srcBit;
            dstByte = unat (dstBit div 8);
            dstMask = bitMask dstBit
        in if srcByte \<ge> length src \<or> dstByte \<ge> length dst then dst
           else copyBits_loop (i + 1)
                  (assignBit dst dstByte dstMask (src ! srcByte AND srcMask \<noteq> 0))
                  src srcStart count
      else dst)"
  by pat_completeness auto
termination
  by (relation "measure (\<lambda>(i, dst, src, srcStart, count). unat count - unat i)")
     (simp_all add: loop_simps)

declare copyBits_loop.simps [simp del]

definition copyBits :: "bytes \<Rightarrow> bytes \<Rightarrow> u16 \<Rightarrow> u16 \<Rightarrow> bytes" where
  "copyBits dst src srcStart count = copyBits_loop 0 dst src srcStart count"

function writeBits_loop :: "u16 \<Rightarrow> bytes \<Rightarrow> u16 \<Rightarrow> u16 \<Rightarrow> bytes \<Rightarrow> bytes" where
  "writeBits_loop i dst dstStart count src =
     (if i < count then
        let dstBit = dstStart + i;
            dstByte = unat (dstBit div 8);
            dstMask = bitMask dstBit;
            srcByte = unat (i div 8);
            srcMask = bitMask i
        in if dstByte \<ge> length dst \<or> srcByte \<ge> length src then dst
           else writeBits_loop (i + 1)
                  (assignBit dst dstByte dstMask (src ! srcByte AND srcMask \<noteq> 0))
                  dstStart count src
      else dst)"
  by pat_completeness auto
termination
  by (relation "measure (\<lambda>(i, dst, dstStart, count, src). unat count - unat i)")
     (simp_all add: loop_simps)

declare writeBits_loop.simps [simp del]

definition writeBits :: "bytes \<Rightarrow> u16 \<Rightarrow> u16 \<Rightarrow> bytes \<Rightarrow> bytes" where
  "writeBits dst dstStart count src = writeBits_loop 0 dst dstStart count src"

section \<open>The loops move exactly the requested bits\<close>

text \<open>
  A masked byte test is a bit test and a masked assignment is \<^const>\<open>put_bit\<close>; both loops are then
  iterations of one step on bit positions.
\<close>

lemma unat_div8 [simp]: "unat (k div 8 :: u16) = unat k div 8"
  by (simp add: unat_div_distrib)

lemma unat_mod8 [simp]: "unat (k mod 8 :: u16) = unat k mod 8"
  by (simp add: unat_mod_distrib)

lemma mask_test:
  "unat k div 8 < length src \<Longrightarrow>
    (src ! (unat k div 8) AND bitMask k \<noteq> 0) = bit_at src (unat k)"
  by (auto simp: bitMask_def bit_at_def and_exp_eq_0_iff_not_bit)

lemma assignBit_put_bit:
  "assignBit dst (unat k div 8) (bitMask k) b = put_bit dst (unat k) b"
  by (simp add: assignBit_def put_bit_def bitMask_def)

lemma length_assignBit [simp]: "length (assignBit dst j m b) = length dst"
  by (simp add: assignBit_def)

lemma length_copyBits_loop [simp]: "length (copyBits_loop i dst src s c) = length dst"
  by (induction i dst src s c rule: copyBits_loop.induct)
     (subst copyBits_loop.simps, simp add: Let_def)

lemma length_writeBits_loop [simp]: "length (writeBits_loop i dst s c src) = length dst"
  by (induction i dst s c src rule: writeBits_loop.induct)
     (subst writeBits_loop.simps, simp add: Let_def)

lemma length_copyBits [simp]: "length (copyBits dst src s c) = length dst"
  by (simp add: copyBits_def)

lemma length_writeBits [simp]: "length (writeBits dst s c src) = length dst"
  by (simp add: writeBits_def)

lemma copyBits_loop_step:
  assumes "i < count" and "unat srcStart + unat count \<le> 8 * length src"
    and "unat srcStart + unat count \<le> 65536" and "unat count \<le> 8 * length dst"
  shows "copyBits_loop i dst src srcStart count =
    copyBits_loop (i + 1) (put_bit dst (unat i) (bit_at src (unat srcStart + unat i)))
      src srcStart count"
proof -
  from assms(1) have lt: "unat i < unat count" by (simp add: word_less_nat_alt)
  with assms have sum: "unat (srcStart + i) = unat srcStart + unat i"
    by (intro u16_plus_no_wrap) linarith
  from lt assms have "(unat srcStart + unat i) div 8 < length src" "unat i div 8 < length dst"
    by (auto simp: less_mult_imp_div_less)
  with assms(1) mask_test [of "srcStart + i" src] show ?thesis
    by (subst copyBits_loop.simps) (simp add: Let_def sum assignBit_put_bit)
qed

lemma copyBits_loop_bits:
  assumes "unat srcStart + unat count \<le> 8 * length src"
    and "unat srcStart + unat count \<le> 65536" and "unat count \<le> 8 * length dst"
  shows "bit_at (copyBits_loop i dst src srcStart count) k =
    (if unat i \<le> k \<and> k < unat count then bit_at src (unat srcStart + k) else bit_at dst k)"
  using assms(3)
proof (induction "unat count - unat i" arbitrary: i dst rule: less_induct)
  case less
  show ?case
  proof (cases "i < count")
    case False
    then show ?thesis
      by (subst copyBits_loop.simps) (auto simp: word_less_nat_alt)
  next
    case True
    let ?dst = "put_bit dst (unat i) (bit_at src (unat srcStart + unat i))"
    have "bit_at (copyBits_loop (i + 1) ?dst src srcStart count) k =
        (if unat (i + 1) \<le> k \<and> k < unat count then bit_at src (unat srcStart + k)
         else bit_at ?dst k)"
      using less.prems by (intro less.hyps u16_loop_measure [OF True]) simp
    with True less.prems assms show ?thesis
      by (auto simp: copyBits_loop_step bit_at_put_bit unat_succ_u16 [OF True] word_less_nat_alt)
  qed
qed

lemma copyBits_bits:
  assumes "unat srcStart + unat count \<le> 8 * length src"
    and "unat srcStart + unat count \<le> 65536" and "unat count \<le> 8 * length dst"
  shows "bit_at (copyBits dst src srcStart count) k =
    (if k < unat count then bit_at src (unat srcStart + k) else bit_at dst k)"
  using copyBits_loop_bits [OF assms, of 0 k] by (simp add: copyBits_def)

lemma writeBits_loop_step:
  assumes "i < count" and "unat dstStart + unat count \<le> 8 * length dst"
    and "unat dstStart + unat count \<le> 65536" and "unat count \<le> 8 * length src"
  shows "writeBits_loop i dst dstStart count src =
    writeBits_loop (i + 1) (put_bit dst (unat dstStart + unat i) (bit_at src (unat i)))
      dstStart count src"
proof -
  from assms(1) have lt: "unat i < unat count" by (simp add: word_less_nat_alt)
  with assms have sum: "unat (dstStart + i) = unat dstStart + unat i"
    by (intro u16_plus_no_wrap) linarith
  from lt assms have "(unat dstStart + unat i) div 8 < length dst" "unat i div 8 < length src"
    by (auto simp: less_mult_imp_div_less)
  with assms(1) mask_test [of i src] assignBit_put_bit [of dst "dstStart + i"] show ?thesis
    by (subst writeBits_loop.simps) (simp add: Let_def sum)
qed

lemma writeBits_loop_bits:
  assumes "unat dstStart + unat count \<le> 8 * length dst"
    and "unat dstStart + unat count \<le> 65536" and "unat count \<le> 8 * length src"
  shows "bit_at (writeBits_loop i dst dstStart count src) k =
    (if unat dstStart + unat i \<le> k \<and> k < unat dstStart + unat count
     then bit_at src (k - unat dstStart) else bit_at dst k)"
  using assms(1)
proof (induction "unat count - unat i" arbitrary: i dst rule: less_induct)
  case less
  show ?case
  proof (cases "i < count")
    case False
    then show ?thesis
      by (subst writeBits_loop.simps) (auto simp: word_less_nat_alt)
  next
    case True
    let ?dst = "put_bit dst (unat dstStart + unat i) (bit_at src (unat i))"
    have "bit_at (writeBits_loop (i + 1) ?dst dstStart count src) k =
        (if unat dstStart + unat (i + 1) \<le> k \<and> k < unat dstStart + unat count
         then bit_at src (k - unat dstStart) else bit_at ?dst k)"
      using less.prems by (intro less.hyps u16_loop_measure [OF True]) simp
    with True less.prems assms show ?thesis
      by (auto simp: writeBits_loop_step bit_at_put_bit unat_succ_u16 [OF True] word_less_nat_alt)
  qed
qed

lemma writeBits_bits:
  assumes "unat dstStart + unat count \<le> 8 * length dst"
    and "unat dstStart + unat count \<le> 65536" and "unat count \<le> 8 * length src"
  shows "bit_at (writeBits dst dstStart count src) k =
    (if unat dstStart \<le> k \<and> k < unat dstStart + unat count
     then bit_at src (k - unat dstStart) else bit_at dst k)"
  using writeBits_loop_bits [OF assms, of 0 k] by (simp add: writeBits_def)

text \<open>With no bytes behind the destination, both loops return at their first iteration.\<close>

lemma writeBits_no_backing [simp]: "writeBits [] s c src = []"
  using length_writeBits [of "[]" s c src] by (simp del: length_writeBits)

lemma copyBits_no_backing [simp]: "copyBits dst [] s c = dst"
  by (simp add: copyBits_def copyBits_loop.simps Let_def)

lemma writeBits_no_source [simp]: "writeBits dst s c [] = dst"
  by (simp add: writeBits_def writeBits_loop.simps Let_def)

end
