(* ===== verification/MemCore.thy ===== *)
theory MemCore
  imports MemBits MemLayout
begin

text \<open>
  internal/memorycore/memory.go and state_sealing.go: one memory instance, its constructor and its
  four bounds-checked operations. A method is a function of its receiver, \<open>None\<close> for the nil
  pointer; a method that writes returns the updated memory. Each operation holds the memory's
  lock around its loop, so it is one atomic step here.
\<close>

section \<open>State sealing metadata (state_sealing.go)\<close>

record StateSealingDef =
  seal_Area :: Area
  seal_Address :: u16

section \<open>The memory instance and its constructor\<close>

record MemoryLayouts =
  Coils :: "AreaLayout option"
  DiscreteInputs :: "AreaLayout option"
  HoldingRegs :: "AreaLayout option"
  InputRegs :: "AreaLayout option"

record Memory =
  coilsLayout :: "AreaLayout option"
  discreteInputsLayout :: "AreaLayout option"
  holdingRegsLayout :: "AreaLayout option"
  inputRegsLayout :: "AreaLayout option"
  coilsBits :: bytes
  discreteInputsBits :: bytes
  holdingRegs :: "u16 list"
  inputRegs :: "u16 list"
  stateSealing :: "StateSealingDef option"

definition zeroMemory :: Memory where
  "zeroMemory =
     \<lparr>coilsLayout = None, discreteInputsLayout = None, holdingRegsLayout = None,
      inputRegsLayout = None, coilsBits = [], discreteInputsBits = [], holdingRegs = [],
      inputRegs = [], stateSealing = None\<rparr>"

text \<open>One \<open>if layouts.X != nil\<close> block of \<open>NewMemory\<close>: validate, then allocate.\<close>

definition withLayout ::
  "AreaLayout option \<Rightarrow> (AreaLayout \<Rightarrow> Memory \<Rightarrow> Memory) \<Rightarrow> Memory \<Rightarrow> (mem_error, Memory) outcome" where
  "withLayout lo alloc m =
     (case lo of
        None \<Rightarrow> Ok m
      | Some l \<Rightarrow> (case Layout_Validate l of Some e \<Rightarrow> Err e | None \<Rightarrow> Ok (alloc l m)))"

definition allocCoils :: "AreaLayout \<Rightarrow> Memory \<Rightarrow> Memory" where
  "allocCoils l m = m\<lparr>coilsLayout := Some l, coilsBits := replicate (bytesForBits (Size l)) 0\<rparr>"

definition allocDiscreteInputs :: "AreaLayout \<Rightarrow> Memory \<Rightarrow> Memory" where
  "allocDiscreteInputs l m =
     m\<lparr>discreteInputsLayout := Some l,
       discreteInputsBits := replicate (bytesForBits (Size l)) 0\<rparr>"

definition allocHoldingRegs :: "AreaLayout \<Rightarrow> Memory \<Rightarrow> Memory" where
  "allocHoldingRegs l m =
     m\<lparr>holdingRegsLayout := Some l, holdingRegs := replicate (unat (Size l)) 0\<rparr>"

definition allocInputRegs :: "AreaLayout \<Rightarrow> Memory \<Rightarrow> Memory" where
  "allocInputRegs l m =
     m\<lparr>inputRegsLayout := Some l, inputRegs := replicate (unat (Size l)) 0\<rparr>"

definition NewMemory :: "MemoryLayouts \<Rightarrow> (mem_error, Memory) outcome" where
  "NewMemory layouts =
     (case withLayout (Coils layouts) allocCoils zeroMemory of
        Err e \<Rightarrow> Err e | Panic \<Rightarrow> Panic
      | Ok m1 \<Rightarrow>
     (case withLayout (DiscreteInputs layouts) allocDiscreteInputs m1 of
        Err e \<Rightarrow> Err e | Panic \<Rightarrow> Panic
      | Ok m2 \<Rightarrow>
     (case withLayout (HoldingRegs layouts) allocHoldingRegs m2 of
        Err e \<Rightarrow> Err e | Panic \<Rightarrow> Panic
      | Ok m3 \<Rightarrow> withLayout (InputRegs layouts) allocInputRegs m3)))"

definition SetStateSealing :: "Memory option \<Rightarrow> StateSealingDef \<Rightarrow> (mem_error, Memory) outcome" where
  "SetStateSealing mo d =
     (case mo of None \<Rightarrow> Panic | Some m \<Rightarrow> Ok (m\<lparr>stateSealing := Some d\<rparr>))"

definition StateSealing :: "Memory option \<Rightarrow> (mem_error, StateSealingDef option) outcome" where
  "StateSealing mo = (case mo of None \<Rightarrow> Panic | Some m \<Rightarrow> Ok (stateSealing m))"

section \<open>Bit operations\<close>

text \<open>The \<open>switch area\<close> of \<open>ReadBits\<close> and \<open>WriteBits\<close>; \<open>None\<close> is its default branch.\<close>

definition bitBacking :: "Memory \<Rightarrow> Area \<Rightarrow> (AreaLayout option \<times> bytes) option" where
  "bitBacking m area =
     (if area = AreaCoils then Some (coilsLayout m, coilsBits m)
      else if area = AreaDiscreteInputs then Some (discreteInputsLayout m, discreteInputsBits m)
      else None)"

definition storeBits :: "Memory \<Rightarrow> Area \<Rightarrow> bytes \<Rightarrow> Memory" where
  "storeBits m area bs =
     (if area = AreaCoils then m\<lparr>coilsBits := bs\<rparr> else m\<lparr>discreteInputsBits := bs\<rparr>)"

definition ReadBits ::
  "Memory option \<Rightarrow> Area \<Rightarrow> u16 \<Rightarrow> u16 \<Rightarrow> bytes \<Rightarrow> (mem_error, bytes) outcome" where
  "ReadBits mo area address count dst =
     (case mo of None \<Rightarrow> Err ErrNilMemory | Some m \<Rightarrow>
      if count = 0 then Err ErrCountZero else
      case bitBacking m area of None \<Rightarrow> Err ErrInvalidArea | Some (layout, backing) \<Rightarrow>
      (case layout of None \<Rightarrow> Err ErrAreaNotDefined | Some l \<Rightarrow>
       if \<not> Contains l address count then Err ErrOutOfBounds else
       let want = bytesForBits count in
       if length dst < want then Err ErrDstTooSmall else
       let off = Offset l address in
       Ok (copyBits (take want dst) backing off count @ drop want dst)))"

definition WriteBits ::
  "Memory option \<Rightarrow> Area \<Rightarrow> u16 \<Rightarrow> u16 \<Rightarrow> bytes \<Rightarrow> (mem_error, Memory) outcome" where
  "WriteBits mo area address count src =
     (case mo of None \<Rightarrow> Err ErrNilMemory | Some m \<Rightarrow>
      if count = 0 then Err ErrCountZero else
      case bitBacking m area of None \<Rightarrow> Err ErrInvalidArea | Some (layout, backing) \<Rightarrow>
      (case layout of None \<Rightarrow> Err ErrAreaNotDefined | Some l \<Rightarrow>
       if \<not> Contains l address count then Err ErrOutOfBounds else
       let want = bytesForBits count in
       if length src < want then Err ErrSrcTooSmall else
       let off = Offset l address in
       Ok (storeBits m area (writeBits backing off count (take want src)))))"

section \<open>Register operations\<close>

definition regBacking :: "Memory \<Rightarrow> Area \<Rightarrow> (AreaLayout option \<times> u16 list) option" where
  "regBacking m area =
     (if area = AreaHoldingRegs then Some (holdingRegsLayout m, holdingRegs m)
      else if area = AreaInputRegs then Some (inputRegsLayout m, inputRegs m)
      else None)"

definition storeRegs :: "Memory \<Rightarrow> Area \<Rightarrow> u16 list \<Rightarrow> Memory" where
  "storeRegs m area rs =
     (if area = AreaHoldingRegs then m\<lparr>holdingRegs := rs\<rparr> else m\<lparr>inputRegs := rs\<rparr>)"

text \<open>The two loops index the backing slice and the caller's buffer; out of range is a panic.\<close>

function readRegs_loop ::
  "u16 \<Rightarrow> u16 list \<Rightarrow> u16 \<Rightarrow> u16 \<Rightarrow> bytes \<Rightarrow> (mem_error, bytes) outcome" where
  "readRegs_loop i backing off count dst =
     (if i < count then
        if unat (off + i) \<ge> length backing \<or> unat i * 2 + 2 > length dst then Panic
        else readRegs_loop (i + 1) backing off count
               (put_be16 dst (unat i * 2) (backing ! unat (off + i)))
      else Ok dst)"
  by pat_completeness auto
termination
  by (relation "measure (\<lambda>(i, backing, off, count, dst). unat count - unat i)")
     (simp_all add: loop_simps)

function writeRegs_loop ::
  "u16 \<Rightarrow> u16 list \<Rightarrow> u16 \<Rightarrow> u16 \<Rightarrow> bytes \<Rightarrow> (mem_error, u16 list) outcome" where
  "writeRegs_loop i backing off count src =
     (if i < count then
        if unat i * 2 + 2 > length src \<or> unat (off + i) \<ge> length backing then Panic
        else writeRegs_loop (i + 1) (backing[unat (off + i) := be16 src (unat i * 2)])
               off count src
      else Ok backing)"
  by pat_completeness auto
termination
  by (relation "measure (\<lambda>(i, backing, off, count, src). unat count - unat i)")
     (simp_all add: loop_simps)

declare readRegs_loop.simps [simp del] writeRegs_loop.simps [simp del]

definition ReadRegs ::
  "Memory option \<Rightarrow> Area \<Rightarrow> u16 \<Rightarrow> u16 \<Rightarrow> bytes \<Rightarrow> (mem_error, bytes) outcome" where
  "ReadRegs mo area address count dst =
     (case mo of None \<Rightarrow> Err ErrNilMemory | Some m \<Rightarrow>
      if count = 0 then Err ErrCountZero else
      let want = unat count * 2 in
      if length dst < want then Err ErrDstTooSmall else
      case regBacking m area of None \<Rightarrow> Err ErrInvalidArea | Some (layout, backing) \<Rightarrow>
      (case layout of None \<Rightarrow> Err ErrAreaNotDefined | Some l \<Rightarrow>
       if \<not> Contains l address count then Err ErrOutOfBounds else
       let off = Offset l address in
       readRegs_loop 0 backing off count dst))"

definition WriteRegs ::
  "Memory option \<Rightarrow> Area \<Rightarrow> u16 \<Rightarrow> u16 \<Rightarrow> bytes \<Rightarrow> (mem_error, Memory) outcome" where
  "WriteRegs mo area address count src =
     (case mo of None \<Rightarrow> Err ErrNilMemory | Some m \<Rightarrow>
      if count = 0 then Err ErrCountZero else
      let want = unat count * 2 in
      if length src < want then Err ErrSrcTooSmall else
      case regBacking m area of None \<Rightarrow> Err ErrInvalidArea | Some (layout, backing) \<Rightarrow>
      (case layout of None \<Rightarrow> Err ErrAreaNotDefined | Some l \<Rightarrow>
       if \<not> Contains l address count then Err ErrOutOfBounds else
       let off = Offset l address in
       (case writeRegs_loop 0 backing off count src of
          Ok rs \<Rightarrow> Ok (storeRegs m area rs)
        | Err e \<Rightarrow> Err e
        | Panic \<Rightarrow> Panic)))"

section \<open>What a memory holds\<close>

text \<open>
  The abstract view: a partial map from areas and addresses to cells. An address has a cell when
  the area is configured and the address is inside its window.
\<close>

datatype cell = BitCell bool | RegCell u16

definition in_window :: "AreaLayout \<Rightarrow> nat \<Rightarrow> bool" where
  "in_window l a \<longleftrightarrow> lay_first l \<le> a \<and> a < lay_end l"

definition cell_at :: "Memory \<Rightarrow> Area \<Rightarrow> nat \<Rightarrow> cell option" where
  "cell_at m area a =
     (case bitBacking m area of
        Some (Some l, bs) \<Rightarrow>
          if in_window l a then Some (BitCell (bit_at bs (a - lay_first l))) else None
      | Some (None, _) \<Rightarrow> None
      | None \<Rightarrow>
     (case regBacking m area of
        Some (Some l, rs) \<Rightarrow>
          if in_window l a then Some (RegCell (rs ! (a - lay_first l))) else None
      | _ \<Rightarrow> None))"

text \<open>
  The representation invariant: every configured area has a valid layout and a backing slice of
  the size the constructor allocates for it, every other area has an empty one.
\<close>

definition wf_bits :: "AreaLayout option \<Rightarrow> bytes \<Rightarrow> bool" where
  "wf_bits lo bs =
     (case lo of None \<Rightarrow> bs = []
      | Some l \<Rightarrow> Layout_Validate l = None \<and> length bs = bytesForBits (Size l))"

definition wf_regs :: "AreaLayout option \<Rightarrow> u16 list \<Rightarrow> bool" where
  "wf_regs lo rs =
     (case lo of None \<Rightarrow> rs = []
      | Some l \<Rightarrow> Layout_Validate l = None \<and> length rs = unat (Size l))"

definition wf_memory :: "Memory \<Rightarrow> bool" where
  "wf_memory m \<longleftrightarrow>
     wf_bits (coilsLayout m) (coilsBits m) \<and>
     wf_bits (discreteInputsLayout m) (discreteInputsBits m) \<and>
     wf_regs (holdingRegsLayout m) (holdingRegs m) \<and>
     wf_regs (inputRegsLayout m) (inputRegs m)"

text \<open>
  A bit area of 65529 to 65535 bits is accepted by \<open>Validate\<close> and gets no backing bytes at all
  (\<open>bytesForBits\<close> wraps). The memories whose bit areas are smaller are called backed.
\<close>

definition small_layout :: "AreaLayout option \<Rightarrow> bool" where
  "small_layout lo = (case lo of None \<Rightarrow> True | Some l \<Rightarrow> unat (Size l) < 65529)"

definition backed_memory :: "Memory \<Rightarrow> bool" where
  "backed_memory m \<longleftrightarrow> wf_memory m \<and>
     small_layout (coilsLayout m) \<and> small_layout (discreteInputsLayout m)"

end
