(* ===== verification/MemRefine.thy ===== *)
theory MemRefine
  imports MemCore
begin

text \<open>
  The operations of a memory refine updates and lookups of its abstract cells: what succeeds, what
  a successful call does, and that everything else is unchanged.
\<close>

section \<open>Register loops\<close>

lemma readRegs_loop_ok:
  assumes "unat off + unat count \<le> length backing" and "unat off + unat count \<le> 65536"
    and "unat count * 2 \<le> length dst"
  shows "readRegs_loop i backing off count dst =
    Ok (overwrite (unat i * 2)
          (regs_bytes (take (unat count - unat i) (drop (unat off + unat i) backing))) dst)"
  using assms(3)
proof (induction "unat count - unat i" arbitrary: i dst rule: less_induct)
  case less
  show ?case
  proof (cases "i < count")
    case False
    then show ?thesis by (subst readRegs_loop.simps) (simp add: word_less_nat_alt)
  next
    case True
    then have lt: "unat i < unat count" by (simp add: word_less_nat_alt)
    with assms(2) have sum: "unat (off + i) = unat off + unat i"
      by (intro u16_plus_no_wrap) linarith
    let ?v = "backing ! (unat off + unat i)"
    have "readRegs_loop i backing off count dst
        = readRegs_loop (i + 1) backing off count (put_be16 dst (unat i * 2) ?v)"
      using True lt assms(1) less.prems by (subst readRegs_loop.simps) (simp add: sum)
    also have "\<dots> = Ok (overwrite (unat (i + 1) * 2)
          (regs_bytes (take (unat count - unat (i + 1)) (drop (unat off + unat (i + 1)) backing)))
          (put_be16 dst (unat i * 2) ?v))"
      using less.prems by (intro less.hyps u16_loop_measure [OF True]) simp
    finally show ?thesis
      using lt assms(1) less.prems
      by (simp add: unat_succ_u16 [OF True] take_drop_Cons put_be16_overwrite
            del: regs_bytes_simps)
  qed
qed

lemma writeRegs_loop_ok:
  assumes "unat off + unat count \<le> length backing" and "unat off + unat count \<le> 65536"
    and "unat count * 2 \<le> length src"
  shows "writeRegs_loop i backing off count src =
    Ok (overwrite (unat off + unat i)
          (take (unat count - unat i) (drop (unat i) (bytes_regs src))) backing)"
  using assms(1)
proof (induction "unat count - unat i" arbitrary: i backing rule: less_induct)
  case less
  show ?case
  proof (cases "i < count")
    case False
    then show ?thesis by (subst writeRegs_loop.simps) (simp add: word_less_nat_alt)
  next
    case True
    then have lt: "unat i < unat count" by (simp add: word_less_nat_alt)
    with assms(2) have sum: "unat (off + i) = unat off + unat i"
      by (intro u16_plus_no_wrap) linarith
    let ?v = "be16 src (2 * unat i)"
    have v: "bytes_regs src ! unat i = ?v"
      using lt assms(3) by (intro nth_bytes_regs) linarith
    have "writeRegs_loop i backing off count src
        = writeRegs_loop (i + 1) (backing[unat off + unat i := ?v]) off count src"
      using True lt assms(3) less.prems
      by (subst writeRegs_loop.simps) (simp add: sum mult.commute)
    also have "\<dots> = Ok (overwrite (unat off + unat (i + 1))
          (take (unat count - unat (i + 1)) (drop (unat (i + 1)) (bytes_regs src)))
          (backing[unat off + unat i := ?v]))"
      using less.prems by (intro less.hyps u16_loop_measure [OF True]) simp
    also have "\<dots> = Ok (overwrite (unat off + unat i)
          (?v # take (unat count - unat (i + 1)) (drop (unat (i + 1)) (bytes_regs src))) backing)"
      using lt less.prems
      by (subst overwrite_Cons) (simp_all add: unat_succ_u16 [OF True] le_diff_conv2)
    finally show ?thesis
      using lt assms(3) take_drop_Cons [of "unat i" "unat count" 0 "bytes_regs src"]
      by (simp add: unat_succ_u16 [OF True] v)
  qed
qed

section \<open>Windows\<close>

lemma Contains_window:
  assumes "count \<noteq> 0"
  shows "Contains l address count \<longleftrightarrow> (\<forall>k < unat count. in_window l (unat address + k))"
proof
  assume r: "\<forall>k < unat count. in_window l (unat address + k)"
  have pos: "0 < unat count" using assms by (simp add: unat_gt_0)
  then have "in_window l (unat address)" "in_window l (unat address + (unat count - 1))"
    using r [rule_format, of 0] r [rule_format, of "unat count - 1"] by simp_all
  with assms pos show "Contains l address count"
    by (simp add: layout_simps in_window_def) linarith
qed (auto simp: layout_simps in_window_def)

lemma Contains_in_window:
  "Contains l address count \<Longrightarrow> k < unat count \<Longrightarrow> in_window l (unat address + k)"
  by (simp add: layout_simps in_window_def)

lemma Offset_off:
  "Contains l address count \<Longrightarrow>
    unat address = lay_first l + unat (Offset l address) \<and>
    unat (Offset l address) + unat count \<le> unat (Size l)"
  using Offset_range [of l address count] by (simp add: Offset_unat) (simp add: layout_simps)

lemma wf_bits_Some:
  "wf_bits (Some l) bs \<Longrightarrow> unat (Size l) < 65529 \<Longrightarrow> unat (Size l) \<le> 8 * length bs"
  by (simp add: wf_bits_def bytesForBits_covers)

section \<open>The abstract update\<close>

definition upd_cells ::
  "(Area \<Rightarrow> nat \<Rightarrow> cell option) \<Rightarrow> Area \<Rightarrow> nat \<Rightarrow> nat \<Rightarrow> (nat \<Rightarrow> cell) \<Rightarrow> Area \<Rightarrow> nat \<Rightarrow> cell option" where
  "upd_cells f area a n g = (\<lambda>ar j. if ar = area \<and> a \<le> j \<and> j < a + n then Some (g (j - a)) else f ar j)"

definition same_shape :: "Memory \<Rightarrow> Memory \<Rightarrow> bool" where
  "same_shape m m' \<longleftrightarrow>
     coilsLayout m' = coilsLayout m \<and> discreteInputsLayout m' = discreteInputsLayout m \<and>
     holdingRegsLayout m' = holdingRegsLayout m \<and> inputRegsLayout m' = inputRegsLayout m \<and>
     stateSealing m' = stateSealing m"

lemma same_shape_refl [simp]: "same_shape m m"
  by (simp add: same_shape_def)

lemma same_shape_trans: "same_shape m n \<Longrightarrow> same_shape n p \<Longrightarrow> same_shape m p"
  by (simp add: same_shape_def)

lemmas access_defs = bitBacking_def regBacking_def storeBits_def storeRegs_def

lemma bitBacking_storeBits:
  "bitBacking m area = Some (lo, bs) \<Longrightarrow>
    bitBacking (storeBits m area bs') ar = (if ar = area then Some (lo, bs') else bitBacking m ar)"
  by (auto simp: access_defs split: if_splits)

lemma regBacking_storeBits [simp]: "regBacking (storeBits m area bs) ar = regBacking m ar"
  by (auto simp: access_defs)

lemma regBacking_storeRegs:
  "regBacking m area = Some (lo, rs) \<Longrightarrow>
    regBacking (storeRegs m area rs') ar = (if ar = area then Some (lo, rs') else regBacking m ar)"
  by (auto simp: access_defs split: if_splits)

lemma bitBacking_storeRegs [simp]: "bitBacking (storeRegs m area rs) ar = bitBacking m ar"
  by (auto simp: access_defs)

lemma bitBacking_None_iff: "bitBacking m area = None \<longleftrightarrow> \<not> IsBitArea area"
  by (simp add: bitBacking_def IsBitArea_def)

lemma regBacking_None_iff: "regBacking m area = None \<longleftrightarrow> \<not> IsRegArea area"
  by (simp add: regBacking_def IsRegArea_def)

lemma wf_bitBacking: "wf_memory m \<Longrightarrow> bitBacking m area = Some (lo, bs) \<Longrightarrow> wf_bits lo bs"
  by (auto simp: wf_memory_def bitBacking_def split: if_splits)

lemma wf_regBacking: "wf_memory m \<Longrightarrow> regBacking m area = Some (lo, rs) \<Longrightarrow> wf_regs lo rs"
  by (auto simp: wf_memory_def regBacking_def split: if_splits)

lemma backed_bitBacking:
  "backed_memory m \<Longrightarrow> bitBacking m area = Some (Some l, bs) \<Longrightarrow>
    lay_end l \<le> 65536 \<and> unat (Size l) < 65529 \<and> unat (Size l) \<le> 8 * length bs"
  by (auto simp: backed_memory_def wf_memory_def wf_bits_def small_layout_def bitBacking_def
      Layout_Validate_iff bytesForBits_covers split: if_splits)

lemma storeBits_shape [simp]: "same_shape m (storeBits m area bs)"
  by (simp add: same_shape_def storeBits_def)

lemma storeRegs_shape [simp]: "same_shape m (storeRegs m area rs)"
  by (simp add: same_shape_def storeRegs_def)

lemma wf_storeBits:
  "wf_memory m \<Longrightarrow> bitBacking m area = Some (lo, bs) \<Longrightarrow> length bs' = length bs \<Longrightarrow>
    wf_memory (storeBits m area bs')"
  by (auto simp: wf_memory_def wf_bits_def storeBits_def bitBacking_def
      split: if_splits option.splits)

lemma wf_storeRegs:
  "wf_memory m \<Longrightarrow> regBacking m area = Some (lo, rs) \<Longrightarrow> length rs' = length rs \<Longrightarrow>
    wf_memory (storeRegs m area rs')"
  by (auto simp: wf_memory_def wf_regs_def storeRegs_def regBacking_def
      split: if_splits option.splits)

lemma backed_same_shape: "backed_memory m \<Longrightarrow> same_shape m m' \<Longrightarrow> wf_memory m' \<Longrightarrow> backed_memory m'"
  by (simp add: backed_memory_def same_shape_def)

section \<open>Each operation: when it succeeds and what it does\<close>

lemma cell_at_bits:
  "bitBacking m area = Some (Some l, bs) \<Longrightarrow>
    cell_at m area a =
      (if in_window l a then Some (BitCell (bit_at bs (a - lay_first l))) else None)"
  by (simp add: cell_at_def)

lemma cell_at_regs:
  "regBacking m area = Some (Some l, rs) \<Longrightarrow>
    cell_at m area a =
      (if in_window l a then Some (RegCell (rs ! (a - lay_first l))) else None)"
  by (auto simp: cell_at_def access_defs split: if_splits)

lemma cell_at_cong:
  "bitBacking m' area = bitBacking m area \<Longrightarrow> regBacking m' area = regBacking m area \<Longrightarrow>
    cell_at m' area = cell_at m area"
  by (rule ext) (simp add: cell_at_def cong: option.case_cong)

lemma cell_at_no_layout:
  "bitBacking m area = Some (None, bs) \<Longrightarrow> cell_at m area a = None"
  "regBacking m area = Some (None, rs) \<Longrightarrow> cell_at m area a = None"
  by (auto simp: cell_at_def access_defs split: if_splits)

lemma cell_at_invalid:
  "\<not> IsBitArea area \<Longrightarrow> \<not> IsRegArea area \<Longrightarrow> cell_at m area a = None"
  by (simp add: cell_at_def bitBacking_None_iff [THEN iffD2] regBacking_None_iff [THEN iffD2])

definition has_cells :: "Memory \<Rightarrow> Area \<Rightarrow> u16 \<Rightarrow> u16 \<Rightarrow> bool" where
  "has_cells m area address count \<longleftrightarrow>
     count \<noteq> 0 \<and> (\<forall>k < unat count. cell_at m area (unat address + k) \<noteq> None)"

lemma has_cells_bits:
  assumes "bitBacking m area = Some (Some l, bs)"
  shows "has_cells m area address count \<longleftrightarrow> Contains l address count"
proof (cases "count = 0")
  case False
  then show ?thesis
    using Contains_window [of count l address] cell_at_bits [OF assms] by (auto simp: has_cells_def)
qed (simp add: has_cells_def layout_simps)

lemma has_cells_regs:
  assumes "regBacking m area = Some (Some l, rs)"
  shows "has_cells m area address count \<longleftrightarrow> Contains l address count"
proof (cases "count = 0")
  case False
  then show ?thesis
    using Contains_window [of count l address] cell_at_regs [OF assms] by (auto simp: has_cells_def)
qed (simp add: has_cells_def layout_simps)

lemma has_cells_zero [simp]: "\<not> has_cells m area address 0"
  by (simp add: has_cells_def)

lemma Contains_zero [simp]: "\<not> Contains l address 0"
  by (simp add: layout_simps)

lemma has_cells_no_layout:
  "bitBacking m area = Some (None, bs) \<Longrightarrow> \<not> has_cells m area address count"
  "regBacking m area = Some (None, rs) \<Longrightarrow> \<not> has_cells m area address count"
  using unat_gt_0 [of count] by (auto simp: has_cells_def cell_at_no_layout)

lemma has_cells_pos: "has_cells m area address count \<Longrightarrow> cell_at m area (unat address) \<noteq> None"
  by (metis add.right_neutral has_cells_def unat_gt_0)

text \<open>Obtaining the layout and the backing slice from a successful call.\<close>

lemma ReadBits_ok_cases:
  assumes "ReadBits (Some m) area address count dst = Ok d"
  obtains l bs where "bitBacking m area = Some (Some l, bs)" "Contains l address count"
    "bytesForBits count \<le> length dst"
    "d = copyBits (take (bytesForBits count) dst) bs (Offset l address) count
         @ drop (bytesForBits count) dst"
  using assms by (auto simp: ReadBits_def Let_def split: if_splits option.splits prod.splits)

lemma WriteBits_ok_cases:
  assumes "WriteBits (Some m) area address count src = Ok m'"
  obtains l bs where "bitBacking m area = Some (Some l, bs)" "Contains l address count"
    "bytesForBits count \<le> length src"
    "m' = storeBits m area
       (writeBits bs (Offset l address) count (take (bytesForBits count) src))"
  using assms by (auto simp: WriteBits_def Let_def split: if_splits option.splits prod.splits)

lemma ReadBits_no_panic: "no_panic (ReadBits mo area address count dst)"
  by (auto simp: ReadBits_def Let_def split: option.splits)

lemma WriteBits_no_panic: "no_panic (WriteBits mo area address count src)"
  by (auto simp: WriteBits_def Let_def split: option.splits)

lemma ReadBits_is_ok:
  "is_ok (ReadBits (Some m) area address count dst) \<longleftrightarrow>
     IsBitArea area \<and> has_cells m area address count \<and> bytesForBits count \<le> length dst"
proof (cases "bitBacking m area")
  case None
  then show ?thesis using bitBacking_None_iff [of m area] by (simp add: ReadBits_def)
next
  case (Some p)
  moreover from Some have "IsBitArea area"
    using bitBacking_None_iff [of m area] by auto
  ultimately show ?thesis
    by (cases p; cases "fst p")
       (auto simp: ReadBits_def Let_def has_cells_bits has_cells_no_layout not_le)
qed

lemma WriteBits_is_ok:
  "is_ok (WriteBits (Some m) area address count src) \<longleftrightarrow>
     IsBitArea area \<and> has_cells m area address count \<and> bytesForBits count \<le> length src"
proof (cases "bitBacking m area")
  case None
  then show ?thesis using bitBacking_None_iff [of m area] by (simp add: WriteBits_def)
next
  case (Some p)
  moreover from Some have "IsBitArea area"
    using bitBacking_None_iff [of m area] by auto
  ultimately show ?thesis
    by (cases p; cases "fst p")
       (auto simp: WriteBits_def Let_def has_cells_bits has_cells_no_layout not_le)
qed

lemma ReadBits_effect:
  assumes "backed_memory m" and "ReadBits (Some m) area address count dst = Ok d"
  shows "length d = length dst"
    and "k < unat count \<Longrightarrow> cell_at m area (unat address + k) = Some (BitCell (bit_at d k))"
    and "unat count \<le> k \<Longrightarrow> bit_at d k = bit_at dst k"
proof -
  from assms(2) obtain l bs where b: "bitBacking m area = Some (Some l, bs)"
    and c: "Contains l address count" and len: "bytesForBits count \<le> length dst"
    and d: "d = copyBits (take (bytesForBits count) dst) bs (Offset l address) count
         @ drop (bytesForBits count) dst"
    by (rule ReadBits_ok_cases)
  let ?w = "bytesForBits count" and ?o = "unat (Offset l address)"
  from backed_bitBacking [OF assms(1) b] have sz: "unat (Size l) < 65529"
    "unat (Size l) \<le> 8 * length bs" by auto
  from Offset_off [OF c] sz have cnt: "unat count < 65529" "?o + unat count \<le> 8 * length bs"
    "?o + unat count \<le> 65536" "unat address = lay_first l + ?o" by auto
  from bytesForBits_covers [OF cnt(1)] len
  have bits: "bit_at (copyBits (take ?w dst) bs (Offset l address) count) j =
      (if j < unat count then bit_at bs (?o + j) else bit_at (take ?w dst) j)" for j
    using cnt by (intro copyBits_bits) auto
  show "length d = length dst" using len by (simp add: d)
  show "cell_at m area (unat address + k) = Some (BitCell (bit_at d k))" if "k < unat count"
    using that bytesForBits_covers [OF cnt(1)] len Contains_in_window [OF c that] cnt(4)
    by (simp add: d cell_at_bits [OF b] bit_at_append bits add.assoc)
  show "bit_at d k = bit_at dst k" if "unat count \<le> k"
    using that len bit_at_append [of "take ?w dst" "drop ?w dst" k]
    by (simp add: d bit_at_append bits)
qed

lemma WriteBits_effect:
  assumes "backed_memory m" and "WriteBits (Some m) area address count src = Ok m'"
  shows "cell_at m' = upd_cells (cell_at m) area (unat address) (unat count)
           (\<lambda>k. BitCell (bit_at src k))"
    and "backed_memory m'" and "same_shape m m'"
proof -
  from assms(2) obtain l bs where b: "bitBacking m area = Some (Some l, bs)"
    and c: "Contains l address count" and len: "bytesForBits count \<le> length src"
    and m': "m' = storeBits m area
       (writeBits bs (Offset l address) count (take (bytesForBits count) src))"
    by (rule WriteBits_ok_cases)
  let ?w = "bytesForBits count" and ?o = "unat (Offset l address)"
  from backed_bitBacking [OF assms(1) b] have sz: "unat (Size l) < 65529"
    "unat (Size l) \<le> 8 * length bs" by auto
  from Offset_off [OF c] sz have cnt: "unat count < 65529" "?o + unat count \<le> 8 * length bs"
    "?o + unat count \<le> 65536" "unat address = lay_first l + ?o" by auto
  from bytesForBits_covers [OF cnt(1)] len
  have bits: "bit_at (writeBits bs (Offset l address) count (take ?w src)) j =
      (if ?o \<le> j \<and> j < ?o + unat count then bit_at (take ?w src) (j - ?o) else bit_at bs j)" for j
    using cnt by (intro writeBits_bits) auto
  have take_src: "k < unat count \<Longrightarrow> bit_at (take ?w src) k = bit_at src k" for k
    using bytesForBits_covers [OF cnt(1)] by (auto simp: bit_at_take)
  show sh: "same_shape m m'" by (simp add: m')
  have wf: "wf_memory m'"
    using assms(1) b unfolding m' by (intro wf_storeBits) (auto simp: backed_memory_def)
  show "backed_memory m'" using assms(1) sh wf by (rule backed_same_shape)
  show "cell_at m' = upd_cells (cell_at m) area (unat address) (unat count)
           (\<lambda>k. BitCell (bit_at src k))"
  proof (intro ext)
    fix ar j
    show "cell_at m' ar j = upd_cells (cell_at m) area (unat address) (unat count)
           (\<lambda>k. BitCell (bit_at src k)) ar j"
    proof (cases "ar = area")
      case False
      then show ?thesis
        using bitBacking_storeBits [OF b] cell_at_cong [of m' ar m] by (simp add: m' upd_cells_def)
    next
      case True
      have b': "bitBacking m' area = Some (Some l,
          writeBits bs (Offset l address) count (take ?w src))"
        using bitBacking_storeBits [OF b] by (simp add: m')
      show ?thesis
        using True cnt(4) Contains_in_window [OF c, of "j - unat address"]
        by (auto simp: cell_at_bits [OF b'] cell_at_bits [OF b] upd_cells_def bits take_src
            in_window_def less_diff_conv2)
    qed
  qed
qed

subsection \<open>Registers\<close>

lemma regBacking_fits:
  assumes "wf_memory m" "regBacking m area = Some (Some l, rs)" "Contains l address count"
  shows "unat (Offset l address) + unat count \<le> length rs"
    and "unat (Offset l address) + unat count \<le> 65536"
    and "unat address = lay_first l + unat (Offset l address)"
  using Offset_off [OF assms(3)] wf_regBacking [OF assms(1,2)] u16_bound [of "Size l"]
  by (auto simp: wf_regs_def simp del: u16_bound)

lemma ReadRegs_value:
  assumes "wf_memory m" "regBacking m area = Some (Some l, rs)" "Contains l address count"
    and "unat count * 2 \<le> length dst"
  shows "ReadRegs (Some m) area address count dst =
    Ok (overwrite 0 (regs_bytes (take (unat count) (drop (unat (Offset l address)) rs))) dst)"
proof -
  have "count \<noteq> 0" using assms(3) by (auto simp: layout_simps)
  with assms readRegs_loop_ok [OF regBacking_fits(1,2) [OF assms(1-3)] assms(4), of 0]
  show ?thesis by (simp add: ReadRegs_def Let_def)
qed

lemma WriteRegs_value:
  assumes "wf_memory m" "regBacking m area = Some (Some l, rs)" "Contains l address count"
    and "unat count * 2 \<le> length src"
  shows "WriteRegs (Some m) area address count src =
    Ok (storeRegs m area
      (overwrite (unat (Offset l address)) (take (unat count) (bytes_regs src)) rs))"
proof -
  have "count \<noteq> 0" using assms(3) by (auto simp: layout_simps)
  with assms writeRegs_loop_ok [OF regBacking_fits(1,2) [OF assms(1-3)] assms(4), of 0]
  show ?thesis by (simp add: WriteRegs_def Let_def)
qed

text \<open>Where the guards fail there is an error, never a panic.\<close>

lemma ReadRegs_cases:
  assumes "wf_memory m"
  shows "(\<exists>e. ReadRegs (Some m) area address count dst = Err e) \<and>
           \<not> (has_cells m area address count \<and> IsRegArea area \<and> unat count * 2 \<le> length dst)
       \<or> (\<exists>l rs. regBacking m area = Some (Some l, rs) \<and> Contains l address count \<and>
           unat count * 2 \<le> length dst)"
proof (cases "regBacking m area")
  case None
  then show ?thesis using regBacking_None_iff [of m area] by (auto simp: ReadRegs_def Let_def)
next
  case (Some p)
  then show ?thesis
    by (cases p; cases "fst p")
       (auto simp: ReadRegs_def Let_def has_cells_regs has_cells_no_layout not_le)
qed

lemma WriteRegs_cases:
  assumes "wf_memory m"
  shows "(\<exists>e. WriteRegs (Some m) area address count src = Err e) \<and>
           \<not> (has_cells m area address count \<and> IsRegArea area \<and> unat count * 2 \<le> length src)
       \<or> (\<exists>l rs. regBacking m area = Some (Some l, rs) \<and> Contains l address count \<and>
           unat count * 2 \<le> length src)"
proof (cases "regBacking m area")
  case None
  then show ?thesis using regBacking_None_iff [of m area] by (auto simp: WriteRegs_def Let_def)
next
  case (Some p)
  then show ?thesis
    by (cases p; cases "fst p")
       (auto simp: WriteRegs_def Let_def has_cells_regs has_cells_no_layout not_le)
qed

lemma ReadRegs_is_ok:
  assumes "wf_memory m"
  shows "is_ok (ReadRegs (Some m) area address count dst) \<longleftrightarrow>
     IsRegArea area \<and> has_cells m area address count \<and> unat count * 2 \<le> length dst"
  using ReadRegs_cases [OF assms, of area address count dst] regBacking_None_iff [of m area]
  by (auto simp: ReadRegs_value [OF assms] has_cells_regs)

lemma WriteRegs_is_ok:
  assumes "wf_memory m"
  shows "is_ok (WriteRegs (Some m) area address count src) \<longleftrightarrow>
     IsRegArea area \<and> has_cells m area address count \<and> unat count * 2 \<le> length src"
  using WriteRegs_cases [OF assms, of area address count src] regBacking_None_iff [of m area]
  by (auto simp: WriteRegs_value [OF assms] has_cells_regs)

lemma ReadRegs_no_panic: "wf_memory m \<Longrightarrow> no_panic (ReadRegs (Some m) area address count dst)"
  using ReadRegs_cases [of m area address count dst] by (auto simp: ReadRegs_value)

lemma WriteRegs_no_panic: "wf_memory m \<Longrightarrow> no_panic (WriteRegs (Some m) area address count src)"
  using WriteRegs_cases [of m area address count src] by (auto simp: WriteRegs_value)

lemma ReadRegs_effect:
  assumes "wf_memory m" and "ReadRegs (Some m) area address count dst = Ok d"
  shows "length d = length dst"
    and "k < unat count \<Longrightarrow> cell_at m area (unat address + k) = Some (RegCell (be16 d (2 * k)))"
    and "\<exists>vs. length vs = unat count \<and> d = overwrite 0 (regs_bytes vs) dst"
proof -
  from ReadRegs_cases [OF assms(1), of area address count dst] assms(2)
  obtain l rs where b: "regBacking m area = Some (Some l, rs)"
    and c: "Contains l address count" and len: "unat count * 2 \<le> length dst"
    by auto
  note fits = regBacking_fits [OF assms(1) b c]
  let ?vs = "take (unat count) (drop (unat (Offset l address)) rs)"
  have lv: "length ?vs = unat count" using fits by simp
  have d: "d = overwrite 0 (regs_bytes ?vs) dst"
    using ReadRegs_value [OF assms(1) b c len] assms(2) by simp
  show "length d = length dst" using len lv by (simp add: d)
  show "\<exists>vs. length vs = unat count \<and> d = overwrite 0 (regs_bytes vs) dst" using d lv by blast
  show "cell_at m area (unat address + k) = Some (RegCell (be16 d (2 * k)))" if k: "k < unat count"
  proof -
    have "be16 d (2 * k) = ?vs ! k"
      using k lv be16_append_left [of "2 * k" "regs_bytes ?vs"] be16_regs_bytes [of k ?vs]
      by (simp add: d overwrite_def)
    with k fits Contains_in_window [OF c k] show ?thesis
      by (simp add: cell_at_regs [OF b] add.assoc)
  qed
qed

lemma WriteRegs_effect:
  assumes "wf_memory m" and "WriteRegs (Some m) area address count src = Ok m'"
  shows "cell_at m' = upd_cells (cell_at m) area (unat address) (unat count)
           (\<lambda>k. RegCell (be16 src (2 * k)))"
    and "wf_memory m'" and "same_shape m m'"
proof -
  from WriteRegs_cases [OF assms(1), of area address count src] assms(2)
  obtain l rs where b: "regBacking m area = Some (Some l, rs)"
    and c: "Contains l address count" and len: "unat count * 2 \<le> length src"
    by auto
  note fits = regBacking_fits [OF assms(1) b c]
  let ?o = "unat (Offset l address)" and ?vs = "take (unat count) (bytes_regs src)"
  have lv: "length ?vs = unat count" using len by simp
  have m': "m' = storeRegs m area (overwrite ?o ?vs rs)"
    using WriteRegs_value [OF assms(1) b c len] assms(2) by simp
  show "same_shape m m'" by (simp add: m')
  show "wf_memory m'"
    using assms(1) b fits lv unfolding m' by (intro wf_storeRegs) auto
  have b': "regBacking m' area = Some (Some l, overwrite ?o ?vs rs)"
    using regBacking_storeRegs [OF b] by (simp add: m')
  have lr: "length rs = unat (Size l)" "lay_end l = lay_first l + unat (Size l)"
    using wf_regBacking [OF assms(1) b] by (simp_all add: wf_regs_def lay_first_def lay_end_def)
  have val: "overwrite ?o ?vs rs ! j =
      (if ?o \<le> j \<and> j < ?o + unat count then be16 src (2 * (j - ?o)) else rs ! j)"
    if "j < length rs" for j
    using that fits lv len nth_overwrite [of ?o ?vs rs j] nth_bytes_regs [of "j - ?o" src] by auto
  show "cell_at m' = upd_cells (cell_at m) area (unat address) (unat count)
           (\<lambda>k. RegCell (be16 src (2 * k)))"
  proof (intro ext)
    fix ar j
    show "cell_at m' ar j = upd_cells (cell_at m) area (unat address) (unat count)
           (\<lambda>k. RegCell (be16 src (2 * k))) ar j"
    proof (cases "ar = area")
      case False
      then show ?thesis
        using regBacking_storeRegs [OF b] cell_at_cong [of m' ar m] by (simp add: m' upd_cells_def)
    next
      case True
      show ?thesis
        using True fits lr Contains_in_window [OF c, of "j - unat address"]
        by (auto simp: cell_at_regs [OF b'] cell_at_regs [OF b] upd_cells_def val
            in_window_def less_diff_conv2)
    qed
  qed
qed

section \<open>The constructor\<close>

lemma withLayout_cases:
  assumes "withLayout lo alloc m = Ok m'"
  obtains "lo = None" "m' = m"
  | l where "lo = Some l" "Layout_Validate l = None" "m' = alloc l m"
  using assms by (auto simp: withLayout_def split: option.splits)

lemmas alloc_defs = allocCoils_def allocDiscreteInputs_def allocHoldingRegs_def allocInputRegs_def

lemma NewMemory_shape:
  assumes "NewMemory ls = Ok m"
  shows "coilsLayout m = Coils ls" and "discreteInputsLayout m = DiscreteInputs ls"
    and "holdingRegsLayout m = HoldingRegs ls" and "inputRegsLayout m = InputRegs ls"
    and "stateSealing m = None" and "wf_memory m"
    and "coilsBits m = replicate (length (coilsBits m)) 0"
    and "discreteInputsBits m = replicate (length (discreteInputsBits m)) 0"
    and "holdingRegs m = replicate (length (holdingRegs m)) 0"
    and "inputRegs m = replicate (length (inputRegs m)) 0"
proof -
  from assms obtain m1 m2 m3 where
    "withLayout (Coils ls) allocCoils zeroMemory = Ok m1"
    "withLayout (DiscreteInputs ls) allocDiscreteInputs m1 = Ok m2"
    "withLayout (HoldingRegs ls) allocHoldingRegs m2 = Ok m3"
    "withLayout (InputRegs ls) allocInputRegs m3 = Ok m"
    by (auto simp: NewMemory_def split: outcome.splits)
  then have *: "coilsLayout m = Coils ls \<and> discreteInputsLayout m = DiscreteInputs ls \<and>
     holdingRegsLayout m = HoldingRegs ls \<and> inputRegsLayout m = InputRegs ls \<and>
     stateSealing m = None \<and> wf_memory m \<and>
     coilsBits m = replicate (length (coilsBits m)) 0 \<and>
     discreteInputsBits m = replicate (length (discreteInputsBits m)) 0 \<and>
     holdingRegs m = replicate (length (holdingRegs m)) 0 \<and>
     inputRegs m = replicate (length (inputRegs m)) 0"
    by (elim withLayout_cases)
       (simp_all add: alloc_defs zeroMemory_def wf_memory_def wf_bits_def wf_regs_def)
  show "coilsLayout m = Coils ls" "discreteInputsLayout m = DiscreteInputs ls"
    "holdingRegsLayout m = HoldingRegs ls" "inputRegsLayout m = InputRegs ls"
    "stateSealing m = None" "wf_memory m"
    "coilsBits m = replicate (length (coilsBits m)) 0"
    "discreteInputsBits m = replicate (length (discreteInputsBits m)) 0"
    "holdingRegs m = replicate (length (holdingRegs m)) 0"
    "inputRegs m = replicate (length (inputRegs m)) 0"
    using * by blast+
qed

definition layouts_valid :: "MemoryLayouts \<Rightarrow> bool" where
  "layouts_valid ls \<longleftrightarrow>
     (\<forall>lo \<in> {Coils ls, DiscreteInputs ls, HoldingRegs ls, InputRegs ls}.
        case lo of None \<Rightarrow> True | Some l \<Rightarrow> Layout_Validate l = None)"

lemma NewMemory_is_ok: "is_ok (NewMemory ls) \<longleftrightarrow> layouts_valid ls"
  by (auto simp: NewMemory_def withLayout_def layouts_valid_def split: option.splits)

lemma NewMemory_no_panic: "no_panic (NewMemory ls)"
  by (auto simp: NewMemory_def withLayout_def split: option.splits)

lemma NewMemory_cells_zero:
  assumes "NewMemory ls = Ok m" and "cell_at m area a = Some c"
  shows "c = BitCell False \<or> c = RegCell 0"
proof -
  note sh = NewMemory_shape [OF assms(1)]
  have bits: "bitBacking m area = Some (lo, bs) \<Longrightarrow> \<not> bit_at bs k" for lo bs k
    using sh(7,8) bit_at_replicate_zero
    by (auto simp: bitBacking_def split: if_splits) (metis bit_at_replicate_zero)+
  show ?thesis
  proof (cases "bitBacking m area")
    case (Some p)
    then obtain l bs where b: "bitBacking m area = Some (Some l, bs)"
      using assms(2) cell_at_no_layout by (cases p; cases "fst p") fastforce+
    then show ?thesis
      using assms(2) bits [OF b] by (simp add: cell_at_bits split: if_splits)
  next
    case None
    then obtain l rs where r: "regBacking m area = Some (Some l, rs)"
      using assms(2) by (auto simp: cell_at_def split: option.splits)
    then have "wf_regs (Some l) rs" by (rule wf_regBacking [OF sh(6)])
    then have "in_window l a \<Longrightarrow> a - lay_first l < length rs"
      by (auto simp: wf_regs_def in_window_def lay_first_def lay_end_def)
    moreover have "rs = replicate (length rs) 0"
      using r sh(9,10) by (auto simp: regBacking_def split: if_splits)
    ultimately have "in_window l a \<Longrightarrow> rs ! (a - lay_first l) = 0"
      by (metis nth_replicate)
    then show ?thesis using assms(2) by (simp add: cell_at_regs [OF r] split: if_splits)
  qed
qed

end
