(* ===== verification/KeyedStore.thy ===== *)
theory KeyedStore
  imports Mma_Prelude
begin

text \<open>
  The contract of the program's three tables keyed by a memory identity (the memory store, the
  policy table, the sealing flags): an insertion that may refuse a key, and a lookup. The
  consequences for a whole sequence of insertions are what the startup code relies on.
\<close>

text \<open>Insertions in order, stopping at the first refusal.\<close>

fun fold_opt :: "('a \<Rightarrow> 's \<Rightarrow> 's option) \<Rightarrow> 'a list \<Rightarrow> 's \<Rightarrow> 's option" where
  "fold_opt f [] s = Some s"
| "fold_opt f (x # xs) s = (case f x s of None \<Rightarrow> None | Some s' \<Rightarrow> fold_opt f xs s')"

lemma fold_opt_append:
  "fold_opt f (xs @ ys) s = (case fold_opt f xs s of None \<Rightarrow> None | Some s' \<Rightarrow> fold_opt f ys s')"
  by (induction xs arbitrary: s) (auto split: option.splits)

locale keyed_store =
  fixes empty_store :: 's
    and add :: "'k \<Rightarrow> 'v \<Rightarrow> 's \<Rightarrow> 's option"
    and get :: "'s \<Rightarrow> 'k \<Rightarrow> 'v option"
    and valid :: "'k \<Rightarrow> bool"
  assumes get_empty: "get empty_store k = None"
    and add_defined: "add k v s \<noteq> None \<longleftrightarrow> valid k"
    and get_add: "add k v s = Some s' \<Longrightarrow> get s' j = (if j = k then Some v else get s j)"
begin

lemma add_all_defined:
  "fold_opt (\<lambda>(k, v). add k v) kvs s \<noteq> None \<longleftrightarrow> (\<forall>(k, v) \<in> set kvs. valid k)"
proof (induction kvs arbitrary: s)
  case (Cons kv kvs)
  obtain k v where kv: "kv = (k, v)" by fastforce
  show ?case
    using Cons.IH add_defined [of k v s] by (auto simp: kv split: option.splits)
qed simp

text \<open>The last insertion under a key is the one found.\<close>

lemma get_add_all:
  "fold_opt (\<lambda>(k, v). add k v) kvs s = Some s' \<Longrightarrow>
    get s' j = (case map_of (rev kvs) j of Some v \<Rightarrow> Some v | None \<Rightarrow> get s j)"
proof (induction kvs arbitrary: s)
  case (Cons kv kvs)
  obtain k v where kv: "kv = (k, v)" by fastforce
  from Cons.prems obtain s1 where "add k v s = Some s1"
    and "fold_opt (\<lambda>(k, v). add k v) kvs s1 = Some s'"
    by (auto simp: kv split: option.splits)
  with Cons.IH [of s1] get_add [of k v s s1 j] show ?case
    by (auto simp: kv map_add_def split: option.splits)
qed simp

text \<open>Under distinct keys every insertion is found, in whatever order they were made.\<close>

lemma get_add_all_distinct:
  assumes "fold_opt (\<lambda>(k, v). add k v) kvs empty_store = Some s'" and "distinct (map fst kvs)"
  shows "get s' j = map_of kvs j"
proof -
  have "map_of (rev kvs) = map_of kvs"
    using assms(2) map_of_inject_set [of "rev kvs" kvs] by (simp flip: rev_map)
  then show ?thesis
    using get_add_all [OF assms(1), of j] get_empty by (auto split: option.splits)
qed

lemma add_all_order:
  assumes "fold_opt (\<lambda>(k, v). add k v) kvs empty_store = Some s1"
    and "fold_opt (\<lambda>(k, v). add k v) kvs' empty_store = Some s2"
    and "distinct (map fst kvs)" and "distinct (map fst kvs')" and "set kvs = set kvs'"
  shows "get s1 j = get s2 j"
proof -
  have "map_of kvs j = map_of kvs' j"
    using assms(3-5) by (metis map_of_inject_set)
  then show ?thesis
    using get_add_all_distinct [OF assms(1,3)] get_add_all_distinct [OF assms(2,4)] by simp
qed

end

end
