(* ===== verification/MemStore.thy ===== *)
theory MemStore
  imports MemRefine KeyedStore
begin

text \<open>
  internal/memorycore/store.go: the table from memory identities to memory instances. The table
  holds pointers; the instances live in a heap, so that two identities could in principle share
  one instance. \<open>wf_store\<close> says that they never do, and it is what makes a write to one identity
  invisible through every other.
\<close>

section \<open>Instances and pointers\<close>

type_synonym mem_ref = nat

record Heap =
  instances :: "mem_ref \<Rightarrow> Memory option"
  next_ref :: mem_ref

definition empty_heap :: Heap where
  "empty_heap = \<lparr>instances = Map.empty, next_ref = 0\<rparr>"

text \<open>\<open>&Memory{}\<close>: a fresh pointer.\<close>

definition heap_new :: "Heap \<Rightarrow> Memory \<Rightarrow> mem_ref \<times> Heap" where
  "heap_new h m =
     (next_ref h, h\<lparr>instances := (instances h)(next_ref h \<mapsto> m), next_ref := Suc (next_ref h)\<rparr>)"

definition heap_put :: "Heap \<Rightarrow> mem_ref \<Rightarrow> Memory \<Rightarrow> Heap" where
  "heap_put h r m = h\<lparr>instances := (instances h)(r \<mapsto> m)\<rparr>"

text \<open>The receiver a method call through a pointer sees: \<open>None\<close> for the nil pointer.\<close>

definition deref :: "Heap \<Rightarrow> mem_ref option \<Rightarrow> Memory option" where
  "deref h p = (case p of None \<Rightarrow> None | Some r \<Rightarrow> instances h r)"

section \<open>The store (store.go)\<close>

record Store =
  store_data :: "MemoryID \<Rightarrow> mem_ref option"

definition NewStore :: Store where
  "NewStore = \<lparr>store_data = Map.empty\<rparr>"

definition Add :: "Store option \<Rightarrow> MemoryID \<Rightarrow> mem_ref option \<Rightarrow> (mem_error, Store) outcome" where
  "Add so mid mem =
     (case so of None \<Rightarrow> Err ErrNilMemory | Some s \<Rightarrow>
      case MemoryID_Validate mid of Some e \<Rightarrow> Err e | None \<Rightarrow>
      case mem of None \<Rightarrow> Err ErrNilMemory | Some r \<Rightarrow>
      Ok (s\<lparr>store_data := (store_data s)(mid \<mapsto> r)\<rparr>))"

definition Get :: "Store option \<Rightarrow> MemoryID \<Rightarrow> mem_ref option \<times> bool" where
  "Get so mid =
     (case so of None \<Rightarrow> (None, False) | Some s \<Rightarrow>
      (case store_data s mid of None \<Rightarrow> (None, False) | Some r \<Rightarrow> (Some r, True)))"

definition MustGet :: "Store option \<Rightarrow> MemoryID \<Rightarrow> (mem_error, mem_ref option) outcome" where
  "MustGet so mid =
     (case Get so mid of (mem, ok) \<Rightarrow> if \<not> ok then Err ErrUnknownMemoryID else Ok mem)"

lemma MustGet_simp:
  "MustGet (Some s) mid =
     (case store_data s mid of None \<Rightarrow> Err ErrUnknownMemoryID | Some r \<Rightarrow> Ok (Some r))"
  by (simp add: MustGet_def Get_def split: option.splits)

definition add_ref :: "MemoryID \<Rightarrow> mem_ref \<Rightarrow> Store \<Rightarrow> Store option" where
  "add_ref mid r s = (case Add (Some s) mid (Some r) of Ok s' \<Rightarrow> Some s' | _ \<Rightarrow> None)"

definition get_ref :: "Store \<Rightarrow> MemoryID \<Rightarrow> mem_ref option" where
  "get_ref s mid = fst (Get (Some s) mid)"

lemma get_ref_data: "get_ref s mid = store_data s mid"
  by (simp add: get_ref_def Get_def split: option.splits)

interpretation store: keyed_store NewStore add_ref get_ref
  "\<lambda>mid. MemoryID_Validate mid = None"
  by unfold_locales
     (auto simp: add_ref_def get_ref_data NewStore_def Add_def split: option.splits)

section \<open>Whole-store invariant and views\<close>

text \<open>The instance an identity resolves to.\<close>

definition memory_of :: "Heap \<Rightarrow> Store \<Rightarrow> MemoryID \<Rightarrow> Memory option" where
  "memory_of h s mid = (case store_data s mid of None \<Rightarrow> None | Some r \<Rightarrow> instances h r)"

text \<open>
  Every registered identity is valid and resolves to a well-formed instance, and no two identities
  share an instance.
\<close>

definition wf_store :: "Heap \<Rightarrow> Store \<Rightarrow> bool" where
  "wf_store h s \<longleftrightarrow>
     (\<forall>mid r. store_data s mid = Some r \<longrightarrow>
        MemoryID_Validate mid = None \<and> r < next_ref h \<and>
        (\<exists>m. instances h r = Some m \<and> wf_memory m)) \<and>
     (\<forall>mid mid' r. store_data s mid = Some r \<longrightarrow> store_data s mid' = Some r \<longrightarrow> mid = mid')"

text \<open>All bit areas have their backing bytes.\<close>

definition backed_store :: "Heap \<Rightarrow> Store \<Rightarrow> bool" where
  "backed_store h s \<longleftrightarrow> wf_store h s \<and> (\<forall>mid m. memory_of h s mid = Some m \<longrightarrow> backed_memory m)"

lemma wf_store_empty: "wf_store empty_heap NewStore"
  by (simp add: wf_store_def NewStore_def)

lemma wf_storeD:
  assumes "wf_store h s" and "store_data s mid = Some r"
  obtains m where "instances h r = Some m" "wf_memory m" "memory_of h s mid = Some m"
  using assms unfolding wf_store_def memory_of_def by fastforce

lemma memory_of_wf: "wf_store h s \<Longrightarrow> memory_of h s mid = Some m \<Longrightarrow> wf_memory m"
  unfolding wf_store_def memory_of_def by (fastforce split: option.splits)

text \<open>Writing through one identity's pointer changes that identity's instance and no other.\<close>

lemma memory_of_put:
  assumes "wf_store h s" and "store_data s mid = Some r"
  shows "memory_of (heap_put h r m') s j = (if j = mid then Some m' else memory_of h s j)"
proof (cases "j = mid")
  case False
  then have "store_data s j \<noteq> Some r" using assms unfolding wf_store_def by blast
  with False show ?thesis by (auto simp: memory_of_def heap_put_def split: option.splits)
qed (simp add: memory_of_def heap_put_def assms(2))

lemma wf_store_put:
  assumes "wf_store h s" and "store_data s mid = Some r" and "wf_memory m'"
  shows "wf_store (heap_put h r m') s"
  using assms unfolding wf_store_def heap_put_def by auto

lemma backed_store_put:
  assumes "backed_store h s" and "store_data s mid = Some r" and "backed_memory m'"
  shows "backed_store (heap_put h r m') s"
  using assms memory_of_put [of h s mid r m'] wf_store_put [of h s mid r m']
  unfolding backed_store_def by (auto simp: backed_memory_def split: if_splits)

text \<open>Registering a fresh instance keeps the invariant.\<close>

lemma wf_store_add:
  assumes "wf_store h s" and "wf_memory m" and "heap_new h m = (r, h')"
    and "Add (Some s) mid (Some r) = Ok s'"
  shows "wf_store h' s'"
    and "memory_of h' s' j = (if j = mid then Some m else memory_of h s j)"
proof -
  from assms(3) have r: "r = next_ref h"
    and h': "h' = h\<lparr>instances := (instances h)(r \<mapsto> m), next_ref := Suc (next_ref h)\<rparr>"
    by (auto simp: heap_new_def)
  from assms(4) have v: "MemoryID_Validate mid = None"
    and s': "s' = s\<lparr>store_data := (store_data s)(mid \<mapsto> r)\<rparr>"
    by (auto simp: Add_def split: option.splits)
  have old: "store_data s k = Some q \<Longrightarrow> q < next_ref h" for k q
    using assms(1) unfolding wf_store_def by blast
  have new: "store_data s k \<noteq> Some (next_ref h)" for k using old [of k "next_ref h"] by auto
  show "wf_store h' s'"
  proof (unfold wf_store_def, intro conjI allI impI)
    fix k q assume k: "store_data s' k = Some q"
    show "MemoryID_Validate k = None" "q < next_ref h'" "\<exists>m. instances h' q = Some m \<and> wf_memory m"
      using assms(1,2) v k old [of k q] unfolding wf_store_def
      by (auto simp: h' s' r less_Suc_eq split: if_splits)
  next
    fix k k' q assume "store_data s' k = Some q" "store_data s' k' = Some q"
    then show "k = k'"
      using assms(1) new unfolding wf_store_def by (auto simp: s' r split: if_splits)
  qed
  show "memory_of h' s' j = (if j = mid then Some m else memory_of h s j)"
    using new by (auto simp: memory_of_def h' s' r split: option.splits)
qed

end
