(* ===== verification/DecisionList.thy ===== *)
theory DecisionList
  imports Mma_Prelude
begin

text \<open>
  The contract of a rule list evaluated top-down with the first match winning and a default of
  deny, stated over any type of rules and requests. The lemmas say which rule decides and which
  edits of a rule list cannot change a decision.
\<close>

locale decision_list =
  fixes matches :: "'r \<Rightarrow> 'q \<Rightarrow> bool"
    and permits :: "'r \<Rightarrow> 'q \<Rightarrow> bool"
    and decide :: "'r list \<Rightarrow> 'q \<Rightarrow> bool"
  assumes decide_Nil: "\<not> decide [] q"
    and decide_Cons: "decide (r # rs) q = (if matches r q then permits r q else decide rs q)"
begin

lemma decide_skip: "\<forall>r \<in> set pre. \<not> matches r q \<Longrightarrow> decide (pre @ rs) q = decide rs q"
  by (induction pre) (simp_all add: decide_Cons)

lemma decide_find:
  "decide rs q = (case find (\<lambda>r. matches r q) rs of None \<Rightarrow> False | Some r \<Rightarrow> permits r q)"
  by (induction rs) (simp_all add: decide_Nil decide_Cons)

lemma decide_iff:
  "decide rs q \<longleftrightarrow> (\<exists>pre r post. rs = pre @ r # post \<and>
     (\<forall>p \<in> set pre. \<not> matches p q) \<and> matches r q \<and> permits r q)"
proof
  show "decide rs q \<Longrightarrow> \<exists>pre r post. rs = pre @ r # post \<and>
     (\<forall>p \<in> set pre. \<not> matches p q) \<and> matches r q \<and> permits r q"
  proof (induction rs)
    case (Cons r rs)
    show ?case
    proof (cases "matches r q")
      case True
      with Cons.prems have "permits r q" by (simp add: decide_Cons)
      with True show ?thesis by (intro exI [of _ "[]"]) auto
    next
      case False
      with Cons obtain pre r' post where "rs = pre @ r' # post"
        "\<forall>p \<in> set pre. \<not> matches p q" "matches r' q" "permits r' q"
        by (auto simp: decide_Cons)
      with False show ?thesis by (intro exI [of _ "r # pre"]) auto
    qed
  qed (simp add: decide_Nil)
qed (auto simp: decide_skip decide_Cons)

text \<open>What follows a matching rule is never consulted.\<close>

lemma decide_shadow: "r \<in> set pre \<Longrightarrow> matches r q \<Longrightarrow> decide (pre @ rs) q = decide pre q"
  by (induction pre) (auto simp: decide_Cons)

lemma default_deny: "\<forall>r \<in> set rs. \<not> matches r q \<Longrightarrow> \<not> decide rs q"
  using decide_skip [of rs q "[]"] decide_Nil by simp

lemma decide_only_permitted: "decide rs q \<Longrightarrow> \<exists>r \<in> set rs. matches r q \<and> permits r q"
  by (auto simp: decide_iff)

end

end
