(* ===== verification/Authority.thy ===== *)
theory Authority
  imports GoNet MemLayout DecisionList KeyedStore
begin

text \<open>
  internal/authority: sealing flags, source-address matchers, access rules and the evaluation of a
  request against them.
\<close>

section \<open>Decisions (decision.go) and errors (errors.go)\<close>

record Decision =
  Allowed :: bool
  ExceptionCode :: u8
  Reason :: string

definition Allow :: "string \<Rightarrow> Decision" where
  "Allow reason = \<lparr>Allowed = True, ExceptionCode = 0, Reason = reason\<rparr>"

definition Deny :: "u8 \<Rightarrow> string \<Rightarrow> Decision" where
  "Deny exceptionCode reason =
     \<lparr>Allowed = False, ExceptionCode = exceptionCode, Reason = reason\<rparr>"

definition ExceptionIllegalFunction :: u8 where "ExceptionIllegalFunction = 0x01"
definition ExceptionDeviceBusy :: u8 where "ExceptionDeviceBusy = 0x06"

text \<open>\<open>ErrInvalidRule\<close> and the two errors of \<open>NewIPMatcher\<close> with the offending text.\<close>

datatype auth_error = ErrInvalidRule | InvalidCIDR string | InvalidIP string

section \<open>Sealing flags (sealing.go)\<close>

record Sealing =
  flags :: "MemoryID \<Rightarrow> bool option"

definition NewSealing :: Sealing where
  "NewSealing = \<lparr>flags = Map.empty\<rparr>"

definition Ensure :: "Sealing \<Rightarrow> MemoryID \<Rightarrow> bool \<Rightarrow> Sealing" where
  "Ensure s mid enabled = s\<lparr>flags := (flags s)(mid \<mapsto> enabled)\<rparr>"

definition IsSealed :: "Sealing \<Rightarrow> MemoryID \<Rightarrow> bool" where
  "IsSealed s mid = (case flags s mid of None \<Rightarrow> False | Some b \<Rightarrow> b)"

definition Seal :: "Sealing \<Rightarrow> MemoryID \<Rightarrow> Sealing" where
  "Seal s mid = Ensure s mid True"

definition Unseal :: "Sealing \<Rightarrow> MemoryID \<Rightarrow> Sealing" where
  "Unseal s mid = Ensure s mid False"

interpretation seal_flags: keyed_store NewSealing "\<lambda>mid b s. Some (Ensure s mid b)" flags
  "\<lambda>_. True"
  by unfold_locales (auto simp: NewSealing_def Ensure_def)

section \<open>Source matchers (ipmatch.go)\<close>

record IPMatcher =
  prefixes :: "Prefix list"

fun newIPMatcher_loop :: "string list \<Rightarrow> Prefix list \<Rightarrow> (auth_error, IPMatcher) outcome" where
  "newIPMatcher_loop [] pfxs = Ok \<lparr>prefixes = pfxs\<rparr>"
| "newIPMatcher_loop (raw # items) pfxs =
     (let s = TrimSpace raw in
      if s = [] then newIPMatcher_loop items pfxs
      else if CHR ''/'' \<in> set s then
        (case ParsePrefix s of
           None \<Rightarrow> Err (InvalidCIDR s)
         | Some p \<Rightarrow> newIPMatcher_loop items (pfxs @ [Prefix_Masked p]))
      else
        (case ParseAddr s of
           None \<Rightarrow> Err (InvalidIP s)
         | Some addr \<Rightarrow>
             let bits = (if Addr_Is6 addr then 128 else 32)
             in newIPMatcher_loop items (pfxs @ [PrefixFrom addr bits])))"

definition NewIPMatcher :: "string list \<Rightarrow> (auth_error, IPMatcher) outcome" where
  "NewIPMatcher items = newIPMatcher_loop items []"

fun match_loop :: "Prefix list \<Rightarrow> Addr \<Rightarrow> bool" where
  "match_loop [] addr = False"
| "match_loop (p # ps) addr = (if Prefix_Contains p addr then True else match_loop ps addr)"

definition Match :: "IPMatcher \<Rightarrow> Addr \<Rightarrow> bool" where
  "Match m addr = (if \<not> Addr_IsValid addr then False else match_loop (prefixes m) addr)"

section \<open>Rules (rules.go)\<close>

record Rule =
  rule_ID :: string
  rule_IP :: "IPMatcher option"
  AllowFunctionCodes :: "u8 \<Rightarrow> unit option"

definition NewRule :: "string \<Rightarrow> string list \<Rightarrow> u8 list \<Rightarrow> (auth_error, Rule) outcome" where
  "NewRule rid ipList allowFC =
     (if rid = [] then Err ErrInvalidRule
      else (case NewIPMatcher ipList of
              Err e \<Rightarrow> Err e
            | Panic \<Rightarrow> Panic
            | Ok m \<Rightarrow>
                Ok \<lparr>rule_ID = rid, rule_IP = Some m,
                    AllowFunctionCodes = fold (\<lambda>fc allow. allow(fc \<mapsto> ())) allowFC Map.empty\<rparr>))"

text \<open>The receiver of the two methods may be the nil pointer.\<close>

definition Matches :: "Rule option \<Rightarrow> Addr \<Rightarrow> bool" where
  "Matches ro src =
     (case ro of None \<Rightarrow> False | Some r \<Rightarrow>
      (case rule_IP r of None \<Rightarrow> False | Some m \<Rightarrow> Match m src))"

definition AllowsFC :: "Rule option \<Rightarrow> u8 \<Rightarrow> bool" where
  "AllowsFC ro fc =
     (case ro of None \<Rightarrow> False | Some r \<Rightarrow> AllowFunctionCodes r fc \<noteq> None)"

section \<open>Evaluation (authority.go)\<close>

record AuthRequest =
  req_MemoryID :: MemoryID
  req_SourceIP :: Addr
  req_FunctionCode :: u8

record MemoryPolicy =
  Rules :: "Rule option list"

record Authority =
  sealing :: Sealing
  policies :: "MemoryID \<Rightarrow> MemoryPolicy option option"

definition NewAuthority :: Authority where
  "NewAuthority = \<lparr>sealing = NewSealing, policies = Map.empty\<rparr>"

definition AuthoritySealing :: "Authority \<Rightarrow> Sealing" where
  "AuthoritySealing a = sealing a"

definition SetMemoryPolicy :: "Authority \<Rightarrow> MemoryID \<Rightarrow> MemoryPolicy option \<Rightarrow> Authority" where
  "SetMemoryPolicy a mid p = a\<lparr>policies := (policies a)(mid \<mapsto> p)\<rparr>"

fun evaluate_rules :: "Rule option list \<Rightarrow> Addr \<Rightarrow> u8 \<Rightarrow> Decision" where
  "evaluate_rules [] src fc =
     Deny ExceptionIllegalFunction ''no rule matched (default deny)''"
| "evaluate_rules (None # rs) src fc = evaluate_rules rs src fc"
| "evaluate_rules (Some r # rs) src fc =
     (if \<not> Matches (Some r) src then evaluate_rules rs src fc
      else if AllowsFC (Some r) fc then Allow (''matched rule: '' @ rule_ID r)
      else Deny ExceptionIllegalFunction
             (''rule matched but function code not allowed: '' @ rule_ID r))"

definition Evaluate :: "Authority \<Rightarrow> AuthRequest \<Rightarrow> Decision" where
  "Evaluate a req =
     (if IsSealed (sealing a) (req_MemoryID req) then
        Deny ExceptionDeviceBusy ''state sealing enabled''
      else
        let p = (case policies a (req_MemoryID req) of None \<Rightarrow> None | Some p \<Rightarrow> p)
        in (case p of
              None \<Rightarrow> Deny ExceptionIllegalFunction ''no access rules (default deny)''
            | Some pol \<Rightarrow>
                if Rules pol = [] then
                  Deny ExceptionIllegalFunction ''no access rules (default deny)''
                else evaluate_rules (Rules pol) (req_SourceIP req) (req_FunctionCode req)))"

interpretation policy_table: keyed_store NewAuthority
  "\<lambda>mid p a. Some (SetMemoryPolicy a mid p)" policies "\<lambda>_. True"
  by unfold_locales (auto simp: NewAuthority_def SetMemoryPolicy_def)

lemma decision_simps [simp]:
  "Allowed (Allow r)" "\<not> Allowed (Deny c r)" "ExceptionCode (Deny c r) = c"
  "Reason (Allow r) = r" "Reason (Deny c r) = r"
  by (simp_all add: Allow_def Deny_def)

interpretation rule_list: decision_list "\<lambda>r (src, fc). Matches r src"
  "\<lambda>r (src, fc). AllowsFC r fc" "\<lambda>rs (src, fc). Allowed (evaluate_rules rs src fc)"
proof (unfold_locales, goal_cases)
  case (1 q)
  then show ?case by (cases q) simp
next
  case (2 r rs q)
  then show ?case by (cases q; cases r) (simp_all add: Matches_def)
qed

end
