(* ===== verification/ConfigBuild.thy ===== *)
theory ConfigBuild
  imports Config MemStore Authority
begin

text \<open>
  internal/config/build_memory_store.go and build_authority_policies.go: from a configuration to the
  memory store and to the policies of each memory.
\<close>

datatype build_error =
    BuildConfigIsNil
  | LegacyModelPresent
  | BuildInvalidListen nat string string listen_error
  | MemoryCreateFailed mem_path mem_error
  | BuildSealingAreaNotCoil mem_path
  | BuildSealingNeedsCoils mem_path
  | BuildSealingOutOfBounds mem_path u16 u16 u16
  | RegisterFailed mem_path u16 u16 mem_error
  | DuplicatePolicy u16 u16 mem_path
  | RuleFailed mem_path nat string auth_error

section \<open>The memory store (build\_memory\_store.go)\<close>

definition area_layout :: "CfgArea \<Rightarrow> AreaLayout option" where
  "area_layout a = (if ca_Count a > 0 then Some \<lparr>Start = ca_Start a, Size = ca_Count a\<rparr> else None)"

definition layouts_of :: "MemoryDefinition \<Rightarrow> MemoryLayouts" where
  "layouts_of d =
     \<lparr>Coils = area_layout (md_Coils d), DiscreteInputs = area_layout (md_DiscreteInputs d),
      HoldingRegs = area_layout (md_HoldingRegs d), InputRegs = area_layout (md_InputRegs d)\<rparr>"

text \<open>The checks of the \<open>if def.StateSealing != nil\<close> block; \<open>None\<close> when they pass.\<close>

definition sealing_error :: "mem_path \<Rightarrow> MemoryDefinition \<Rightarrow> StateSealingConfig \<Rightarrow> build_error option" where
  "sealing_error key d ss =
     (if ToLower (TrimSpace (ss_Area ss)) \<noteq> ''coil'' then Some (BuildSealingAreaNotCoil key)
      else if ca_Count (md_Coils d) = 0 then Some (BuildSealingNeedsCoils key)
      else
        let start = ca_Start (md_Coils d);
            count = ca_Count (md_Coils d);
            addr = ss_Address ss;
            endExclusive = (ucast start :: u32) + ucast count
        in if (ucast addr :: u32) < ucast start \<or> ucast addr \<ge> endExclusive
           then Some (BuildSealingOutOfBounds key addr start (ucast endExclusive))
           else None)"

definition buildOneMemory ::
  "Heap \<Rightarrow> Store \<Rightarrow> u16 \<Rightarrow> mem_path \<Rightarrow> MemoryDefinition \<Rightarrow> (build_error, Heap \<times> Store) outcome"
where
  "buildOneMemory h store port key d =
     (case NewMemory (layouts_of d) of
        Err e \<Rightarrow> Err (MemoryCreateFailed key e)
      | Panic \<Rightarrow> Panic
      | Ok m \<Rightarrow>
          (case heap_new h m of (mem, h1) \<Rightarrow>
          (case (case md_StateSealing d of
                   None \<Rightarrow> Ok h1
                 | Some ss \<Rightarrow>
                     (case sealing_error key d ss of
                        Some e \<Rightarrow> Err e
                      | None \<Rightarrow>
                          (case SetStateSealing (deref h1 (Some mem))
                                  \<lparr>seal_Area = AreaCoils, seal_Address = ss_Address ss\<rparr> of
                             Ok m' \<Rightarrow> Ok (heap_put h1 mem m')
                           | _ \<Rightarrow> Panic))) of
             Err e \<Rightarrow> Err e
           | Panic \<Rightarrow> Panic
           | Ok h2 \<Rightarrow>
               let mid = \<lparr>Port = port, UnitID = md_UnitID d\<rparr> in
               (case Add (Some store) mid (Some mem) of
                  Err e \<Rightarrow> Err (RegisterFailed key port (md_UnitID d) e)
                | Panic \<Rightarrow> Panic
                | Ok store' \<Rightarrow> Ok (h2, store')))))"

fun buildNested_loop ::
  "nat \<Rightarrow> string \<Rightarrow> u16 \<Rightarrow> nat \<Rightarrow> MemoryDefinition list \<Rightarrow> Heap \<Rightarrow> Store
    \<Rightarrow> (build_error, Heap \<times> Store) outcome" where
  "buildNested_loop li lid port mi [] h store = Ok (h, store)"
| "buildNested_loop li lid port mi (d # ds) h store =
     (case buildOneMemory h store port (ListenerPath li lid mi) d of
        Err e \<Rightarrow> Err e | Panic \<Rightarrow> Panic
      | Ok (h', store') \<Rightarrow> buildNested_loop li lid port (Suc mi) ds h' store')"

fun buildListeners_loop ::
  "nat \<Rightarrow> IngressGate list \<Rightarrow> Heap \<Rightarrow> Store \<Rightarrow> (build_error, Heap \<times> Store) outcome" where
  "buildListeners_loop li [] h store = Ok (h, store)"
| "buildListeners_loop li (l # ls) h store =
     (if gate_Memory l = [] then buildListeners_loop (Suc li) ls h store
      else
        (case parseListenPort (gate_Listen l) of
           Err e \<Rightarrow> Err (BuildInvalidListen li (gate_ID l) (gate_Listen l) e)
         | Panic \<Rightarrow> Panic
         | Ok port \<Rightarrow>
             (case buildNested_loop li (gate_ID l) port 0 (gate_Memory l) h store of
                Err e \<Rightarrow> Err e | Panic \<Rightarrow> Panic
              | Ok (h', store') \<Rightarrow> buildListeners_loop (Suc li) ls h' store')))"

definition BuildMemoryStore :: "Config option \<Rightarrow> (build_error, Heap \<times> Store) outcome" where
  "BuildMemoryStore co =
     (case co of
        None \<Rightarrow> Err BuildConfigIsNil
      | Some cfg \<Rightarrow>
          if cfg_Memories cfg \<noteq> [] then Err LegacyModelPresent
          else buildListeners_loop 0 (cfg_Ingress cfg) empty_heap NewStore)"

section \<open>The policies (build\_authority\_policies.go)\<close>

fun buildRules_loop ::
  "mem_path \<Rightarrow> nat \<Rightarrow> PolicyRuleConfig list \<Rightarrow> Rule option list
    \<Rightarrow> (build_error, Rule option list) outcome" where
  "buildRules_loop ctx i [] rules = Ok rules"
| "buildRules_loop ctx i (rc # rcs) rules =
     (case NewRule (pr_ID rc) (pr_SourceIP rc) (pr_AllowFC rc) of
        Err e \<Rightarrow> Err (RuleFailed ctx i (pr_ID rc) e)
      | Panic \<Rightarrow> Panic
      | Ok r \<Rightarrow> buildRules_loop ctx (Suc i) rcs (rules @ [Some r]))"

definition buildPolicyFromDef ::
  "MemoryDefinition \<Rightarrow> mem_path \<Rightarrow> (build_error, MemoryPolicy option) outcome" where
  "buildPolicyFromDef d ctx =
     (case md_Policy d of
        None \<Rightarrow> Ok None
      | Some pc \<Rightarrow>
          (case buildRules_loop ctx 0 (pc_Rules pc) [] of
             Err e \<Rightarrow> Err e | Panic \<Rightarrow> Panic
           | Ok rules \<Rightarrow> Ok (Some \<lparr>Rules = rules\<rparr>)))"

text \<open>
  The map \<open>out\<close> from identities to policies, as the list of its entries. Keys are distinct: an
  entry is only added under a key that is not there.
\<close>

type_synonym policy_entries = "(MemoryID \<times> MemoryPolicy option) list"

definition addPolicy ::
  "u16 \<Rightarrow> mem_path \<Rightarrow> MemoryDefinition \<Rightarrow> policy_entries \<Rightarrow> (build_error, policy_entries) outcome"
where
  "addPolicy port ctx d out =
     (if md_Policy d = None then Ok out
      else
        let mid = \<lparr>Port = port, UnitID = md_UnitID d\<rparr> in
        if map_of out mid \<noteq> None then Err (DuplicatePolicy port (md_UnitID d) ctx)
        else (case buildPolicyFromDef d ctx of
                Err e \<Rightarrow> Err e | Panic \<Rightarrow> Panic
              | Ok p \<Rightarrow> Ok (out @ [(mid, p)])))"

fun policiesLegacy_loop ::
  "(string \<times> MemoryDefinition) list \<Rightarrow> policy_entries \<Rightarrow> (build_error, policy_entries) outcome" where
  "policiesLegacy_loop [] out = Ok out"
| "policiesLegacy_loop ((key, d) # rest) out =
     (case addPolicy (md_Port d) (LegacyPath key) d out of
        Err e \<Rightarrow> Err e | Panic \<Rightarrow> Panic
      | Ok out' \<Rightarrow> policiesLegacy_loop rest out')"

fun policiesNested_loop ::
  "nat \<Rightarrow> string \<Rightarrow> u16 \<Rightarrow> nat \<Rightarrow> MemoryDefinition list \<Rightarrow> policy_entries
    \<Rightarrow> (build_error, policy_entries) outcome" where
  "policiesNested_loop li lid port mi [] out = Ok out"
| "policiesNested_loop li lid port mi (d # ds) out =
     (case addPolicy port (ListenerPath li lid mi) d out of
        Err e \<Rightarrow> Err e | Panic \<Rightarrow> Panic
      | Ok out' \<Rightarrow> policiesNested_loop li lid port (Suc mi) ds out')"

fun policiesListeners_loop ::
  "nat \<Rightarrow> IngressGate list \<Rightarrow> policy_entries \<Rightarrow> (build_error, policy_entries) outcome" where
  "policiesListeners_loop li [] out = Ok out"
| "policiesListeners_loop li (l # ls) out =
     (if gate_Memory l = [] then policiesListeners_loop (Suc li) ls out
      else
        (case parseListenPort (gate_Listen l) of
           Err e \<Rightarrow> Err (BuildInvalidListen li (gate_ID l) (gate_Listen l) e)
         | Panic \<Rightarrow> Panic
         | Ok port \<Rightarrow>
             (case policiesNested_loop li (gate_ID l) port 0 (gate_Memory l) out of
                Err e \<Rightarrow> Err e | Panic \<Rightarrow> Panic
              | Ok out' \<Rightarrow> policiesListeners_loop (Suc li) ls out')))"

definition BuildAuthorityPolicies :: "Config option \<Rightarrow> (build_error, policy_entries) outcome" where
  "BuildAuthorityPolicies co =
     (case co of
        None \<Rightarrow> Err BuildConfigIsNil
      | Some cfg \<Rightarrow>
          (case policiesLegacy_loop (cfg_Memories cfg) [] of
             Err e \<Rightarrow> Err e | Panic \<Rightarrow> Panic
           | Ok out \<Rightarrow> policiesListeners_loop 0 (cfg_Ingress cfg) out))"

end
