(* ===== verification/AuthorityLaws.thy ===== *)
theory AuthorityLaws
  imports Authority
begin

text \<open>
  What the authority decides: prefixes match exactly the addresses that share their leading bits,
  a matcher accepts exactly what its configured items denote, and a request is decided by the
  sealing flag first and by the first matching rule after it.
\<close>

section \<open>Prefixes\<close>

lemma word_xor_eq_0_iff: "(a :: 'a::len word) XOR b = 0 \<longleftrightarrow> a = b"
  by (metis xor.right_neutral xor_self_eq word_bw_assocs(3) xor.left_neutral)

lemma drop_bit_xor_0:
  "drop_bit n ((a :: 'a::len word) XOR b) = 0 \<longleftrightarrow> drop_bit n a = drop_bit n b"
  by (simp add: drop_bit_xor word_xor_eq_0_iff)

lemma and_not_mask_0: "(x :: 'a::len word) AND NOT (mask n) = 0 \<longleftrightarrow> drop_bit n x = 0"
proof
  assume 1: "x AND NOT (mask n) = 0"
  have "bit (x AND NOT (mask n)) (n + k) = bit (drop_bit n x) k" for k
    by (auto simp: bit_simps dest: bit_imp_le_length)
  with 1 show "drop_bit n x = 0" by (intro bit_word_eqI) simp
next
  assume 2: "drop_bit n x = 0"
  show "x AND NOT (mask n) = 0"
  proof (rule bit_word_eqI)
    fix k
    have "n \<le> k \<Longrightarrow> bit x k = bit (drop_bit n x) (k - n)" by (simp add: bit_simps)
    with 2 show "bit (x AND NOT (mask n)) k = bit 0 k"
      by (cases "n \<le> k") (simp_all add: bit_simps)
  qed
qed

lemma keep_high_push:
  "keep_high n (a :: 'a::len word) = push_bit (LENGTH('a) - n) (drop_bit (LENGTH('a) - n) a)"
  by (rule bit_word_eqI) (auto simp: keep_high_def bit_simps)

lemma drop_keep_high:
  "drop_bit (LENGTH('a) - n) (keep_high n (a :: 'a::len word)) = drop_bit (LENGTH('a) - n) a"
  by (rule bit_word_eqI) (auto simp: keep_high_def bit_simps dest: bit_imp_le_length)

lemma keep_high_eq_iff:
  "keep_high n (a :: 'a::len word) = keep_high n b \<longleftrightarrow>
    drop_bit (LENGTH('a) - n) a = drop_bit (LENGTH('a) - n) b"
  by (metis keep_high_push drop_keep_high)

lemma Contains_V4:
  "Prefix_Contains \<lparr>pfx_ip = AddrV4 a, pfx_bits = Some n\<rparr> ip \<longleftrightarrow>
    (\<exists>b. ip = AddrV4 b \<and> keep_high n b = keep_high n a)"
  by (cases ip) (auto simp: Prefix_Contains_def word_xor_eq_0_iff keep_high_eq_iff)

lemma Contains_V6:
  "Prefix_Contains \<lparr>pfx_ip = AddrV6 a z, pfx_bits = Some n\<rparr> ip \<longleftrightarrow>
    (\<exists>b. ip = AddrV6 b [] \<and> keep_high n b = keep_high n a)"
  by (cases ip) (auto simp: Prefix_Contains_def and_not_mask_0 word_xor_eq_0_iff keep_high_eq_iff)

lemma Contains_Zero: "\<not> Prefix_Contains \<lparr>pfx_ip = AddrZero, pfx_bits = bs\<rparr> ip"
  by (cases bs) (simp_all add: Prefix_Contains_def)

lemma Contains_invalid: "pfx_bits p = None \<Longrightarrow> \<not> Prefix_Contains p ip"
  by (simp add: Prefix_Contains_def)

lemma keep_high_idem [simp]: "keep_high n (keep_high n a) = keep_high n a"
  by (simp add: keep_high_def and.assoc)

lemma Masked_Contains [simp]: "Prefix_Contains (Prefix_Masked p) ip = Prefix_Contains p ip"
proof (cases "pfx_bits p")
  case (Some n)
  then show ?thesis
    by (cases p; cases "pfx_ip p")
       (simp_all add: Prefix_Masked_def Contains_V4 Contains_V6 Contains_Zero)
qed (simp add: Prefix_Masked_def Contains_invalid)

text \<open>Same leading bits, as division of the numeric address.\<close>

lemma keep_high_div:
  "keep_high n (b :: 'a::len word) = keep_high n a \<longleftrightarrow>
    unat b div 2 ^ (LENGTH('a) - n) = unat a div 2 ^ (LENGTH('a) - n)"
  by (simp add: keep_high_eq_iff word_eq_iff_unsigned unat_drop_bit_eq drop_bit_eq_div)
     (metis drop_bit_eq_div unat_drop_bit_eq word_unat_eq_iff)

lemma keep_high_full: "keep_high LENGTH('a) (a :: 'a::len word) = a"
  by (simp add: keep_high_def)

lemma host_prefix_Contains:
  "Prefix_Contains (PrefixFrom a (if Addr_Is6 a then 128 else 32)) ip \<longleftrightarrow>
    a \<noteq> AddrZero \<and> ip = Addr_withoutZone a"
  using keep_high_full [where 'a = 32] keep_high_full [where 'a = 128]
  by (cases a) (auto simp: PrefixFrom_def Contains_V4 Contains_V6 Contains_invalid)

section \<open>Matchers and rules\<close>

lemma match_loop_iff: "match_loop ps a \<longleftrightarrow> (\<exists>p \<in> set ps. Prefix_Contains p a)"
  by (induction ps) auto

lemma Match_iff: "Match m a \<longleftrightarrow> Addr_IsValid a \<and> (\<exists>p \<in> set (prefixes m). Prefix_Contains p a)"
  by (simp add: Match_def match_loop_iff)

text \<open>
  What one configured item denotes: nothing when blank, the addresses of a CIDR block, or one
  address without its zone.
\<close>

definition item_ok :: "string \<Rightarrow> bool" where
  "item_ok raw =
     (let s = TrimSpace raw in
      s = [] \<or> (if CHR ''/'' \<in> set s then ParsePrefix s \<noteq> None else ParseAddr s \<noteq> None))"

definition item_covers :: "string \<Rightarrow> Addr \<Rightarrow> bool" where
  "item_covers raw a =
     (let s = TrimSpace raw in
      s \<noteq> [] \<and>
      (if CHR ''/'' \<in> set s
       then (case ParsePrefix s of None \<Rightarrow> False | Some p \<Rightarrow> Prefix_Contains p a)
       else (case ParseAddr s of None \<Rightarrow> False | Some b \<Rightarrow> a = Addr_withoutZone b)))"

lemma parse_octets_none: "ParseAddr_scan cs s \<noteq> Some AddrZero"
proof -
  have "parseIPv4 s \<noteq> Some AddrZero" for s by (auto simp: parseIPv4_def)
  moreover have "parseIPv6 s \<noteq> Some AddrZero" for s
    by (auto simp: parseIPv6_def Let_def split: option.splits prod.splits if_splits)
  ultimately show ?thesis by (induction cs) auto
qed

lemma ParseAddr_valid: "ParseAddr s = Some a \<Longrightarrow> a \<noteq> AddrZero"
  using parse_octets_none [of s s] by (auto simp: ParseAddr_def)

lemma newIPMatcher_loop_ok:
  "is_ok (newIPMatcher_loop items pfxs) \<longleftrightarrow> (\<forall>raw \<in> set items. item_ok raw)"
  by (induction items arbitrary: pfxs)
     (auto simp: Let_def item_ok_def split: option.splits)

lemma newIPMatcher_loop_covers:
  "newIPMatcher_loop items pfxs = Ok m \<Longrightarrow>
    (\<exists>p \<in> set (prefixes m). Prefix_Contains p a) \<longleftrightarrow>
    (\<exists>p \<in> set pfxs. Prefix_Contains p a) \<or> (\<exists>raw \<in> set items. item_covers raw a)"
proof (induction items arbitrary: pfxs)
  case (Cons raw items)
  show ?case
  proof (cases "CHR ''/'' \<in> set (TrimSpace raw)")
    case True
    with Cons show ?thesis
      by (auto simp: Let_def item_covers_def split: option.splits if_splits)
  next
    case False
    with Cons show ?thesis
      by (auto simp: Let_def item_covers_def host_prefix_Contains dest: ParseAddr_valid
          split: option.splits if_splits)
  qed
qed auto

lemma NewIPMatcher_ok: "is_ok (NewIPMatcher items) \<longleftrightarrow> (\<forall>raw \<in> set items. item_ok raw)"
  by (simp add: NewIPMatcher_def newIPMatcher_loop_ok)

lemma NewIPMatcher_covers:
  "NewIPMatcher items = Ok m \<Longrightarrow>
    Match m a \<longleftrightarrow> Addr_IsValid a \<and> (\<exists>raw \<in> set items. item_covers raw a)"
  using newIPMatcher_loop_covers [of items "[]" m a] by (simp add: NewIPMatcher_def Match_iff)

lemma newIPMatcher_loop_no_panic: "no_panic (newIPMatcher_loop items pfxs)"
  by (induction items arbitrary: pfxs) (auto simp: Let_def split: option.splits)

lemma NewIPMatcher_no_panic: "no_panic (NewIPMatcher items)"
  by (simp add: NewIPMatcher_def newIPMatcher_loop_no_panic)

lemma fold_allow: "fold (\<lambda>fc allow. allow(fc \<mapsto> ())) fcs f fc \<noteq> None \<longleftrightarrow> fc \<in> set fcs \<or> f fc \<noteq> None"
  by (induction fcs arbitrary: f) auto

lemma NewRule_is_ok: "is_ok (NewRule rid ips fcs) \<longleftrightarrow> rid \<noteq> [] \<and> (\<forall>raw \<in> set ips. item_ok raw)"
  using NewIPMatcher_ok [of ips] NewIPMatcher_no_panic [of ips]
  by (auto simp: NewRule_def split: outcome.splits)

lemma NewRule_no_panic: "no_panic (NewRule rid ips fcs)"
  using NewIPMatcher_no_panic [of ips] by (auto simp: NewRule_def split: outcome.splits)

lemma NewRule_meaning:
  assumes "NewRule rid ips fcs = Ok r"
  shows "Matches (Some r) a \<longleftrightarrow> Addr_IsValid a \<and> (\<exists>raw \<in> set ips. item_covers raw a)"
    and "AllowsFC (Some r) fc \<longleftrightarrow> fc \<in> set fcs" and "rule_ID r = rid"
  using assms fold_allow [of fcs Map.empty fc]
  by (auto simp: NewRule_def Matches_def AllowsFC_def NewIPMatcher_covers
      split: if_splits outcome.splits)

section \<open>Evaluation\<close>

text \<open>The rules an identity is subject to: none without a policy.\<close>

definition rules_of :: "Authority \<Rightarrow> MemoryID \<Rightarrow> Rule option list" where
  "rules_of a mid = (case policies a mid of Some (Some p) \<Rightarrow> Rules p | _ \<Rightarrow> [])"

lemma Evaluate_allowed:
  "Allowed (Evaluate a req) \<longleftrightarrow>
    \<not> IsSealed (sealing a) (req_MemoryID req) \<and>
    Allowed (evaluate_rules (rules_of a (req_MemoryID req)) (req_SourceIP req)
      (req_FunctionCode req))"
  by (auto simp: Evaluate_def rules_of_def Let_def split: option.splits)

lemma evaluate_rules_code:
  "\<not> Allowed (evaluate_rules rs src fc) \<Longrightarrow>
    ExceptionCode (evaluate_rules rs src fc) = ExceptionIllegalFunction"
  by (induction rs src fc rule: evaluate_rules.induct) (auto split: if_splits)

lemma Evaluate_code:
  "\<not> Allowed (Evaluate a req) \<Longrightarrow>
    ExceptionCode (Evaluate a req) =
      (if IsSealed (sealing a) (req_MemoryID req) then ExceptionDeviceBusy
       else ExceptionIllegalFunction)"
  by (auto simp: Evaluate_def Let_def evaluate_rules_code split: option.splits if_splits)

lemmas allowed_by_first_match =
  rule_list.decide_iff [of _ "(src, fc)" for src fc, simplified]

lemma evaluate_rules_None:
  "find (\<lambda>r. Matches r src) rs = None \<Longrightarrow>
    evaluate_rules rs src fc = Deny ExceptionIllegalFunction ''no rule matched (default deny)''"
  by (induction rs src fc rule: evaluate_rules.induct) (auto split: if_splits)

lemma evaluate_rules_find:
  "find (\<lambda>r. Matches r src) rs = Some (Some r) \<Longrightarrow>
    evaluate_rules rs src fc =
      (if AllowsFC (Some r) fc then Allow (''matched rule: '' @ rule_ID r)
       else Deny ExceptionIllegalFunction
         (''rule matched but function code not allowed: '' @ rule_ID r))"
  by (induction rs src fc rule: evaluate_rules.induct)
     (auto simp: Matches_def split: if_splits option.splits)

end
