(* ===== verification/ConfigLaws.thy ===== *)
theory ConfigLaws
  imports ConfigBuild AuthorityLaws
begin

text \<open>
  What validation accepts and what the builders make of an accepted configuration: one instance per
  declared memory, zeroed, with the declared windows, sealing bit and rules.
\<close>

section \<open>The memories a configuration declares\<close>

lemma parseListenPort_no_panic: "no_panic (parseListenPort l)"
  by (auto simp: parseListenPort_def split: option.splits)

lemma parseListenPort_pos: "parseListenPort l = Ok port \<Longrightarrow> port \<noteq> 0"
  by (auto simp: parseListenPort_def word_of_int_eq_0_iff split: option.splits if_splits)
     (auto dest!: zdvd_imp_le)

definition gate_defs :: "IngressGate \<Rightarrow> (MemoryID \<times> MemoryDefinition) list" where
  "gate_defs g =
     (case parseListenPort (gate_Listen g) of
        Ok port \<Rightarrow> map (\<lambda>d. (\<lparr>Port = port, UnitID = md_UnitID d\<rparr>, d)) (gate_Memory g)
      | _ \<Rightarrow> [])"

definition declared :: "IngressGate list \<Rightarrow> (MemoryID \<times> MemoryDefinition) list" where
  "declared gs = concat (map gate_defs gs)"

lemma declared_Nil [simp]: "declared [] = []"
  by (simp add: declared_def)

lemma declared_Cons [simp]: "declared (g # gs) = gate_defs g @ declared gs"
  by (simp add: declared_def)

definition gate_ok :: "IngressGate \<Rightarrow> bool" where
  "gate_ok g \<longleftrightarrow> gate_Memory g = [] \<or> is_ok (parseListenPort (gate_Listen g))"

definition area_fits :: "CfgArea \<Rightarrow> bool" where
  "area_fits a \<longleftrightarrow> ca_Count a = 0 \<or> unat (ca_Start a) + unat (ca_Count a) \<le> 65536"

definition areas_fit :: "MemoryDefinition \<Rightarrow> bool" where
  "areas_fit d \<longleftrightarrow> area_fits (md_Coils d) \<and> area_fits (md_DiscreteInputs d) \<and>
     area_fits (md_HoldingRegs d) \<and> area_fits (md_InputRegs d)"

definition seal_fits :: "MemoryDefinition \<Rightarrow> bool" where
  "seal_fits d \<longleftrightarrow>
     (case md_StateSealing d of
        None \<Rightarrow> True
      | Some ss \<Rightarrow>
          ToLower (TrimSpace (ss_Area ss)) = ''coil'' \<and> ca_Count (md_Coils d) \<noteq> 0 \<and>
          unat (ca_Start (md_Coils d)) \<le> unat (ss_Address ss) \<and>
          unat (ss_Address ss) < unat (ca_Start (md_Coils d)) + unat (ca_Count (md_Coils d)))"

section \<open>Validation\<close>

lemma validateArea_iff: "validateArea k n a = None \<longleftrightarrow> area_fits a"
  by (auto simp: validateArea_def area_fits_def Let_def word_less_nat_alt not_less)

lemma validateAreas_iff: "validateAreas k d = None \<longleftrightarrow> areas_fit d"
  using validateArea_iff [of k "''coils''" "md_Coils d"]
    validateArea_iff [of k "''discrete_inputs''" "md_DiscreteInputs d"]
    validateArea_iff [of k "''holding_registers''" "md_HoldingRegs d"]
    validateArea_iff [of k "''input_registers''" "md_InputRegs d"]
  by (auto simp: validateAreas_def areas_fit_def split: option.splits)

lemma validateStateSealing_iff: "validateStateSealing k d = None \<longleftrightarrow> seal_fits d"
  by (auto simp: validateStateSealing_def seal_fits_def Let_def word_less_nat_alt word_le_nat_alt
      split: option.splits)

lemma sealing_error_iff:
  "md_StateSealing d = Some ss \<Longrightarrow> sealing_error k d ss = None \<longleftrightarrow> seal_fits d"
  by (auto simp: sealing_error_def seal_fits_def Let_def word_less_nat_alt word_le_nat_alt)

lemma layouts_valid_iff: "layouts_valid (layouts_of d) \<longleftrightarrow> areas_fit d"
  by (auto simp: layouts_valid_def layouts_of_def area_layout_def areas_fit_def area_fits_def
      Layout_Validate_iff lay_end_def word_gt_0)

definition source_ok :: "string \<Rightarrow> bool" where
  "source_ok raw \<longleftrightarrow> TrimSpace raw = [] \<or> parseIPOrCIDR (TrimSpace raw) \<noteq> None"

definition policy_ok :: "MemoryPolicyConfig option \<Rightarrow> bool" where
  "policy_ok p \<longleftrightarrow>
     (case p of None \<Rightarrow> True
      | Some pc \<Rightarrow> \<forall>rc \<in> set (pc_Rules pc).
          (\<forall>raw \<in> set (pr_SourceIP rc). source_ok raw) \<and> 0 \<notin> set (pr_AllowFC rc))"

lemma validateSources_iff: "validateSources k i j ss = None \<longleftrightarrow> (\<forall>raw \<in> set ss. source_ok raw)"
  by (induction ss arbitrary: j) (auto simp: source_ok_def Let_def split: option.splits)

lemma validateFCs_iff: "validateFCs k i j fcs = None \<longleftrightarrow> 0 \<notin> set fcs"
  by (induction fcs arbitrary: j) auto

lemma validateRules_iff:
  "validateRules k i rs = None \<longleftrightarrow>
    (\<forall>rc \<in> set rs. (\<forall>raw \<in> set (pr_SourceIP rc). source_ok raw) \<and> 0 \<notin> set (pr_AllowFC rc))"
proof (induction rs arbitrary: i)
  case (Cons r rs)
  then show ?case
    using validateSources_iff [of k i 0 "pr_SourceIP r"] validateFCs_iff [of k i 0 "pr_AllowFC r"]
    by (auto split: option.splits)
qed simp

lemma validatePolicy_iff: "validatePolicy k p = None \<longleftrightarrow> policy_ok p"
  by (simp add: validatePolicy_def policy_ok_def validateRules_iff split: option.splits)

text \<open>What both kinds of definition must satisfy.\<close>

definition def_ok :: "u16 \<Rightarrow> MemoryDefinition \<Rightarrow> bool" where
  "def_ok port d \<longleftrightarrow> port \<noteq> 0 \<and> md_UnitID d \<le> 0xFF \<and> areas_fit d \<and> seal_fits d \<and>
     policy_ok (md_Policy d)"

lemma checks_None:
  "(case a of Some e \<Rightarrow> Some e | None \<Rightarrow> case b of Some e \<Rightarrow> Some e | None \<Rightarrow> c) = None \<longleftrightarrow>
    a = None \<and> b = None \<and> c = None"
  by (auto split: option.split)

lemma validateDef_iff:
  "validateNestedMemoryDef li mi lid port d = None \<longleftrightarrow> def_ok port d"
  "validateLegacyMemoryDef key d = None \<longleftrightarrow> def_ok (md_Port d) d"
  by (simp_all add: validateNestedMemoryDef_def validateLegacyMemoryDef_def def_ok_def Let_def
      checks_None validateAreas_iff validateStateSealing_iff validatePolicy_iff not_less)
     (auto dest: leD)

text \<open>The identities of a run of definitions, none of which was seen before.\<close>

definition ident :: "MemoryID \<Rightarrow> memIdentity" where
  "ident mid = \<lparr>id_port = Port mid, id_unit = UnitID mid\<rparr>"

lemma ident_inj: "ident a = ident b \<longleftrightarrow> a = b"
  by (cases a; cases b) (auto simp: ident_def)

definition fresh_ids :: "seen_ids \<Rightarrow> MemoryID list \<Rightarrow> seen_ids \<Rightarrow> bool" where
  "fresh_ids seen mids seen' \<longleftrightarrow>
     distinct mids \<and> (\<forall>mid \<in> set mids. seen (ident mid) = None) \<and>
     dom seen' = dom seen \<union> ident ` set mids"

lemma fresh_ids_Nil [simp]: "fresh_ids seen [] seen"
  by (simp add: fresh_ids_def)

lemma fresh_ids_append:
  "fresh_ids s1 xs s2 \<Longrightarrow> fresh_ids s2 ys s3 \<Longrightarrow> fresh_ids s1 (xs @ ys) s3"
proof -
  assume xs: "fresh_ids s1 xs s2" and ys: "fresh_ids s2 ys s3"
  have new: "ident mid \<notin> dom s1 \<and> mid \<notin> set xs" if "mid \<in> set ys" for mid
  proof -
    from ys that have "ident mid \<notin> dom s2" by (auto simp: fresh_ids_def)
    with xs show ?thesis by (auto simp: fresh_ids_def)
  qed
  from xs ys have "dom s3 = dom s1 \<union> ident ` set (xs @ ys)"
    by (simp add: fresh_ids_def image_Un Un_assoc)
  with xs ys new show ?thesis unfolding fresh_ids_def by (auto simp: domIff)
qed

lemma note_id_fresh:
  "note_id port unit path seen = Ok seen' \<Longrightarrow>
    fresh_ids seen [\<lparr>Port = port, UnitID = unit\<rparr>] seen'"
  by (auto simp: note_id_def fresh_ids_def ident_def Let_def split: option.splits)

lemma note_id_no_panic: "no_panic (note_id port unit path seen)"
  by (auto simp: note_id_def Let_def split: option.splits)

lemma validateLegacy_loop_sound:
  "validateLegacy_loop ds seen = Ok seen' \<Longrightarrow>
    (\<forall>(key, d) \<in> set ds. def_ok (md_Port d) d) \<and>
    fresh_ids seen (map (\<lambda>(key, d). \<lparr>Port = md_Port d, UnitID = md_UnitID d\<rparr>) ds) seen'"
proof (induction ds arbitrary: seen)
  case (Cons kd ds)
  obtain key d where kd: "kd = (key, d)" by fastforce
  from Cons.prems obtain seen1 where 1: "validateLegacyMemoryDef key d = None"
    "note_id (md_Port d) (md_UnitID d) (LegacyPath key) seen = Ok seen1"
    "validateLegacy_loop ds seen1 = Ok seen'"
    by (auto simp: kd split: option.splits outcome.splits)
  with Cons.IH fresh_ids_append [OF note_id_fresh [OF 1(2)]] show ?case
    by (auto simp: kd validateDef_iff)
qed simp

lemma validateNested_loop_sound:
  "validateNested_loop li lid port mi ds seen = Ok seen' \<Longrightarrow>
    (\<forall>d \<in> set ds. def_ok port d) \<and>
    fresh_ids seen (map (\<lambda>d. \<lparr>Port = port, UnitID = md_UnitID d\<rparr>) ds) seen'"
proof (induction ds arbitrary: mi seen)
  case (Cons d ds)
  from Cons.prems obtain seen1 where 1: "validateNestedMemoryDef li mi lid port d = None"
    "note_id port (md_UnitID d) (ListenerPath li lid mi) seen = Ok seen1"
    "validateNested_loop li lid port (Suc mi) ds seen1 = Ok seen'"
    by (auto split: option.splits outcome.splits)
  with Cons.IH fresh_ids_append [OF note_id_fresh [OF 1(2)]] show ?case
    by (auto simp: validateDef_iff)
qed simp

lemma validateListeners_loop_sound:
  "validateListeners_loop li gs seen = Ok seen' \<Longrightarrow>
    (\<forall>g \<in> set gs. gate_ok g) \<and> (\<forall>(mid, d) \<in> set (declared gs). def_ok (Port mid) d) \<and>
    fresh_ids seen (map fst (declared gs)) seen'"
proof (induction gs arbitrary: li seen)
  case (Cons g gs)
  show ?case
  proof (cases "gate_Memory g = []")
    case True
    with Cons show ?thesis
      by (auto simp: gate_ok_def gate_defs_def split: outcome.splits)
  next
    case False
    with Cons.prems obtain port seen1 where 1: "parseListenPort (gate_Listen g) = Ok port"
      "validateNested_loop li (gate_ID g) port 0 (gate_Memory g) seen = Ok seen1"
      "validateListeners_loop (Suc li) gs seen1 = Ok seen'"
      by (auto split: outcome.splits)
    from validateNested_loop_sound [OF 1(2)] have d: "\<forall>d \<in> set (gate_Memory g). def_ok port d"
      and f: "fresh_ids seen (map fst (gate_defs g)) seen1"
      by (simp_all add: gate_defs_def 1(1) comp_def)
    have "\<forall>(mid, d) \<in> set (gate_defs g). def_ok (Port mid) d"
      using d by (auto simp: gate_defs_def 1(1))
    with Cons.IH [OF 1(3)] fresh_ids_append [OF f] 1(1) show ?thesis
      by (auto simp: gate_ok_def)
  qed
qed simp

text \<open>An accepted configuration: every memory well placed, and no identity declared twice.\<close>

lemma Validate_sound:
  assumes "Validate (Some cfg) = Ok ()"
  shows "\<forall>g \<in> set (cfg_Ingress cfg). gate_ok g"
    and "\<forall>(mid, d) \<in> set (declared (cfg_Ingress cfg)). def_ok (Port mid) d"
    and "distinct (map (\<lambda>(key, d). \<lparr>Port = md_Port d, UnitID = md_UnitID d\<rparr>) (cfg_Memories cfg)
           @ map fst (declared (cfg_Ingress cfg)))"
proof -
  from assms obtain s1 s2 where "validateLegacy_loop (cfg_Memories cfg) Map.empty = Ok s1"
    and 2: "validateListeners_loop 0 (cfg_Ingress cfg) s1 = Ok s2"
    by (auto simp: Validate_def validateAllMemories_def split: option.splits outcome.splits)
  note legacy = validateLegacy_loop_sound [OF this(1)]
  note nested = validateListeners_loop_sound [OF 2]
  from nested show "\<forall>g \<in> set (cfg_Ingress cfg). gate_ok g"
    and "\<forall>(mid, d) \<in> set (declared (cfg_Ingress cfg)). def_ok (Port mid) d" by blast+
  from fresh_ids_append [OF conjunct2 [OF legacy] conjunct2 [OF conjunct2 [OF nested]]]
  show "distinct (map (\<lambda>(key, d). \<lparr>Port = md_Port d, UnitID = md_UnitID d\<rparr>) (cfg_Memories cfg)
           @ map fst (declared (cfg_Ingress cfg)))"
    unfolding fresh_ids_def by (rule conjunct1)
qed

text \<open>
  Conversely, whatever satisfies these conditions is accepted.
\<close>

definition unseen_ids :: "seen_ids \<Rightarrow> MemoryID list \<Rightarrow> bool" where
  "unseen_ids seen mids \<longleftrightarrow> distinct mids \<and> (\<forall>mid \<in> set mids. seen (ident mid) = None)"

lemma unseen_ids_step:
  "unseen_ids seen (xs @ ys) \<Longrightarrow> fresh_ids seen xs seen' \<Longrightarrow> unseen_ids seen' ys"
proof -
  assume u: "unseen_ids seen (xs @ ys)" and f: "fresh_ids seen xs seen'"
  have "ident mid \<notin> dom seen'" if "mid \<in> set ys" for mid
  proof -
    from u that have "ident mid \<notin> dom seen" "mid \<notin> set xs" by (auto simp: unseen_ids_def)
    moreover from f have "dom seen' = dom seen \<union> ident ` set xs" by (simp add: fresh_ids_def)
    ultimately show ?thesis by (auto simp: ident_inj)
  qed
  with u show ?thesis by (auto simp: unseen_ids_def)
qed

lemma note_id_ok:
  assumes "unseen_ids seen (\<lparr>Port = port, UnitID = unit\<rparr> # mids)"
  shows "\<exists>seen'. note_id port unit path seen = Ok seen' \<and> unseen_ids seen' mids"
proof -
  from assms have "seen \<lparr>id_port = port, id_unit = unit\<rparr> = None"
    by (simp add: unseen_ids_def ident_def)
  then obtain seen' where ok: "note_id port unit path seen = Ok seen'"
    by (auto simp: note_id_def Let_def)
  from unseen_ids_step [of seen "[\<lparr>Port = port, UnitID = unit\<rparr>]" mids seen'] assms
    note_id_fresh [OF ok] ok
  show ?thesis by simp
qed

lemma validateLegacy_loop_complete:
  assumes "\<forall>(key, d) \<in> set ds. def_ok (md_Port d) d"
    and "unseen_ids seen (map (\<lambda>(key, d). \<lparr>Port = md_Port d, UnitID = md_UnitID d\<rparr>) ds @ later)"
  shows "\<exists>seen'. validateLegacy_loop ds seen = Ok seen' \<and> unseen_ids seen' later"
  using assms
proof (induction ds arbitrary: seen)
  case (Cons kd ds)
  obtain key d where kd: "kd = (key, d)" by fastforce
  from Cons.prems(2) obtain seen1 where
    1: "note_id (md_Port d) (md_UnitID d) (LegacyPath key) seen = Ok seen1"
    and u: "unseen_ids seen1 (map (\<lambda>(key, d). \<lparr>Port = md_Port d, UnitID = md_UnitID d\<rparr>) ds @ later)"
    using note_id_ok [of seen "md_Port d" "md_UnitID d"] by (auto simp: kd)
  from Cons.prems(1) have "validateLegacyMemoryDef key d = None" by (simp add: kd validateDef_iff)
  with Cons.IH [OF _ u] Cons.prems(1) 1 show ?case by (simp add: kd)
qed simp

lemma validateNested_loop_complete:
  assumes "\<forall>d \<in> set ds. def_ok port d"
    and "unseen_ids seen (map (\<lambda>d. \<lparr>Port = port, UnitID = md_UnitID d\<rparr>) ds @ later)"
  shows "\<exists>seen'. validateNested_loop li lid port mi ds seen = Ok seen' \<and> unseen_ids seen' later"
  using assms
proof (induction ds arbitrary: mi seen)
  case (Cons d ds)
  from Cons.prems(2) obtain seen1 where
    1: "note_id port (md_UnitID d) (ListenerPath li lid mi) seen = Ok seen1"
    and u: "unseen_ids seen1 (map (\<lambda>d. \<lparr>Port = port, UnitID = md_UnitID d\<rparr>) ds @ later)"
    using note_id_ok [of seen port "md_UnitID d"] by auto
  from Cons.prems(1) have "validateNestedMemoryDef li mi lid port d = None"
    by (simp add: validateDef_iff)
  with Cons.IH [OF _ u, of "Suc mi"] Cons.prems(1) 1 show ?case by simp
qed simp

lemma validateListeners_loop_complete:
  assumes "\<forall>g \<in> set gs. gate_ok g" and "\<forall>(mid, d) \<in> set (declared gs). def_ok (Port mid) d"
    and "unseen_ids seen (map fst (declared gs))"
  shows "is_ok (validateListeners_loop li gs seen)"
  using assms
proof (induction gs arbitrary: li seen)
  case (Cons g gs)
  show ?case
  proof (cases "gate_Memory g = []")
    case True
    then have "gate_defs g = []" by (auto simp: gate_defs_def split: outcome.splits)
    with True Cons show ?thesis by simp
  next
    case False
    with Cons.prems(1) obtain port where p: "parseListenPort (gate_Listen g) = Ok port"
      by (auto simp: gate_ok_def is_ok_iff)
    from Cons.prems(3) have u: "unseen_ids seen
        (map (\<lambda>d. \<lparr>Port = port, UnitID = md_UnitID d\<rparr>) (gate_Memory g) @ map fst (declared gs))"
      by (simp add: gate_defs_def p comp_def)
    from Cons.prems(2) have "\<forall>d \<in> set (gate_Memory g). def_ok port d"
      by (auto simp: gate_defs_def p ball_Un)
    from validateNested_loop_complete [OF this u, of li "gate_ID g" 0] obtain seen1 where
      "validateNested_loop li (gate_ID g) port 0 (gate_Memory g) seen = Ok seen1"
      "unseen_ids seen1 (map fst (declared gs))" by blast
    with Cons.IH [of seen1 "Suc li"] Cons.prems p False show ?thesis by simp
  qed
qed simp

lemma validateIngress_loop_iff:
  "validateIngress_loop i gs seen = None \<longleftrightarrow>
    (\<forall>g \<in> set gs. gate_ID g \<noteq> [] \<and> seen (gate_ID g) = None \<and> TrimSpace (gate_Listen g) \<noteq> [] \<and>
       gate_ok g) \<and> distinct (map gate_ID gs)"
proof (induction gs arbitrary: i seen)
  case (Cons g gs)
  have upd: "(seen(k \<mapsto> ())) x = None \<longleftrightarrow> x \<noteq> k \<and> seen x = None" for k x by simp
  have unit: "seen x \<noteq> Some () \<longleftrightarrow> seen x = None" for x by (cases "seen x") simp_all
  show ?case
  proof (cases "parseListenPort (gate_Listen g)")
    case Panic
    with parseListenPort_no_panic [of "gate_Listen g"] show ?thesis by simp
  qed (auto simp: Cons.IH gate_ok_def upd unit image_iff simp del: fun_upd_apply split: if_splits)
qed simp

text \<open>Every listener is named, named differently, and listens somewhere.\<close>

definition gates_named :: "IngressGate list \<Rightarrow> bool" where
  "gates_named gs \<longleftrightarrow> distinct (map gate_ID gs) \<and>
     (\<forall>g \<in> set gs. gate_ID g \<noteq> [] \<and> TrimSpace (gate_Listen g) \<noteq> [])"

lemma Validate_iff:
  "is_ok (Validate (Some cfg)) \<longleftrightarrow>
    gates_named (cfg_Ingress cfg) \<and> (\<forall>g \<in> set (cfg_Ingress cfg). gate_ok g) \<and>
    (\<forall>(key, d) \<in> set (cfg_Memories cfg). def_ok (md_Port d) d) \<and>
    (\<forall>(mid, d) \<in> set (declared (cfg_Ingress cfg)). def_ok (Port mid) d) \<and>
    distinct (map (\<lambda>(key, d). \<lparr>Port = md_Port d, UnitID = md_UnitID d\<rparr>) (cfg_Memories cfg)
      @ map fst (declared (cfg_Ingress cfg)))"
  (is "?ok \<longleftrightarrow> ?named \<and> ?gates \<and> ?legacy \<and> ?nested \<and> ?distinct")
proof
  assume ?ok
  then have v: "Validate (Some cfg) = Ok ()" by (auto simp: is_ok_iff)
  then obtain s1 where "validateLegacy_loop (cfg_Memories cfg) Map.empty = Ok s1"
    and i: "validateIngress (cfg_Ingress cfg) = None"
    by (auto simp: Validate_def validateAllMemories_def split: option.splits outcome.splits)
  from validateLegacy_loop_sound [OF this(1)] i Validate_sound [OF v]
  show "?named \<and> ?gates \<and> ?legacy \<and> ?nested \<and> ?distinct"
    by (simp add: gates_named_def validateIngress_def validateIngress_loop_iff)
next
  assume a: "?named \<and> ?gates \<and> ?legacy \<and> ?nested \<and> ?distinct"
  then have "unseen_ids Map.empty (map (\<lambda>(key, d). \<lparr>Port = md_Port d, UnitID = md_UnitID d\<rparr>)
      (cfg_Memories cfg) @ map fst (declared (cfg_Ingress cfg)))" by (simp add: unseen_ids_def)
  from validateLegacy_loop_complete [OF _ this] a obtain s1 where
    1: "validateLegacy_loop (cfg_Memories cfg) Map.empty = Ok s1"
    and "unseen_ids s1 (map fst (declared (cfg_Ingress cfg)))" by blast
  from validateListeners_loop_complete [OF _ _ this(2), of 0] a
  obtain s2 where 2: "validateListeners_loop 0 (cfg_Ingress cfg) s1 = Ok s2" by (auto simp: is_ok_iff)
  from a have "validateIngress (cfg_Ingress cfg) = None"
    by (simp add: gates_named_def validateIngress_def validateIngress_loop_iff)
  with 1 2 show ?ok by (simp add: Validate_def validateAllMemories_def)
qed

end
