(* ===== verification/BuildLaws.thy ===== *)
theory BuildLaws
  imports ConfigLaws
begin

text \<open>
  The store and the policies that come out of the builders, and exactly when the builders succeed.
\<close>

section \<open>One memory\<close>

definition sealing_of :: "MemoryDefinition \<Rightarrow> StateSealingDef option" where
  "sealing_of d =
     map_option (\<lambda>ss. \<lparr>seal_Area = AreaCoils, seal_Address = ss_Address ss\<rparr>) (md_StateSealing d)"

definition memory_from :: "MemoryDefinition \<Rightarrow> Memory" where
  "memory_from d =
     (case NewMemory (layouts_of d) of Ok m \<Rightarrow> m\<lparr>stateSealing := sealing_of d\<rparr> | _ \<Rightarrow> zeroMemory)"

lemma heap_new_put: "heap_new h m = (r, h1) \<Longrightarrow> heap_new h m' = (r, heap_put h1 r m')"
  by (auto simp: heap_new_def heap_put_def)

lemma deref_new: "heap_new h m = (r, h1) \<Longrightarrow> deref h1 (Some r) = Some m"
  by (auto simp: heap_new_def deref_def)

definition buildable :: "MemoryID \<Rightarrow> MemoryDefinition \<Rightarrow> bool" where
  "buildable mid d \<longleftrightarrow> areas_fit d \<and> seal_fits d \<and> MemoryID_Validate mid = None"

lemma NewMemory_from: "areas_fit d \<Longrightarrow> \<exists>m. NewMemory (layouts_of d) = Ok m \<and>
    memory_from d = m\<lparr>stateSealing := sealing_of d\<rparr>"
  using NewMemory_is_ok [of "layouts_of d"]
  by (auto simp: is_ok_iff layouts_valid_iff memory_from_def)

lemma buildOneMemory_ok:
  assumes "buildable \<lparr>Port = port, UnitID = md_UnitID d\<rparr> d"
  shows "\<exists>r h' s'. heap_new h (memory_from d) = (r, h') \<and>
    Add (Some s) \<lparr>Port = port, UnitID = md_UnitID d\<rparr> (Some r) = Ok s' \<and>
    buildOneMemory h s port key d = Ok (h', s')"
proof -
  from assms have fit: "areas_fit d" "seal_fits d"
    "MemoryID_Validate \<lparr>Port = port, UnitID = md_UnitID d\<rparr> = None" by (auto simp: buildable_def)
  from NewMemory_from [OF fit(1)] obtain m where m: "NewMemory (layouts_of d) = Ok m"
    "memory_from d = m\<lparr>stateSealing := sealing_of d\<rparr>" by blast
  obtain r h1 where n: "heap_new h m = (r, h1)" by fastforce
  show ?thesis
  proof (cases "md_StateSealing d")
    case None
    with NewMemory_shape(5) [OF m(1)] have "memory_from d = m" by (simp add: m(2) sealing_of_def)
    with None m n fit show ?thesis by (simp add: buildOneMemory_def Add_def)
  next
    case (Some ss)
    with fit(2) have "sealing_error key d ss = None" by (simp add: sealing_error_iff)
    with Some m n fit(3) heap_new_put [OF n, of "memory_from d"] show ?thesis
      by (simp add: buildOneMemory_def Add_def deref_new [OF n] SetStateSealing_def sealing_of_def)
  qed
qed

lemma buildOneMemory_fails:
  assumes "\<not> buildable \<lparr>Port = port, UnitID = md_UnitID d\<rparr> d"
  shows "\<exists>e. buildOneMemory h s port key d = Err e"
proof (cases "areas_fit d")
  case False
  with NewMemory_is_ok [of "layouts_of d"] NewMemory_no_panic [of "layouts_of d"]
  obtain e where "NewMemory (layouts_of d) = Err e"
    by (cases "NewMemory (layouts_of d)") (auto simp: layouts_valid_iff)
  then show ?thesis by (simp add: buildOneMemory_def)
next
  case True
  from NewMemory_from [OF True] obtain m where m: "NewMemory (layouts_of d) = Ok m" by blast
  obtain r h1 where n: "heap_new h m = (r, h1)" by fastforce
  show ?thesis
  proof (cases "seal_fits d")
    case False
    then obtain ss where ss: "md_StateSealing d = Some ss" by (auto simp: seal_fits_def split: option.splits)
    with False obtain e where "sealing_error key d ss = Some e" using sealing_error_iff [OF ss, of key] by auto
    with m n ss show ?thesis by (simp add: buildOneMemory_def)
  next
    case seal: True
    with True assms obtain e where
      "MemoryID_Validate \<lparr>Port = port, UnitID = md_UnitID d\<rparr> = Some e" by (auto simp: buildable_def)
    moreover have "md_StateSealing d = Some ss \<Longrightarrow> sealing_error key d ss = None" for ss
      using seal sealing_error_iff by simp
    ultimately show ?thesis using m n
      by (cases "md_StateSealing d")
         (simp_all add: buildOneMemory_def Add_def deref_new [OF n] SetStateSealing_def)
  qed
qed

lemma memory_from_wf: "areas_fit d \<Longrightarrow> wf_memory (memory_from d)"
  using NewMemory_from [of d] NewMemory_shape(6) by (auto simp: wf_memory_def)

section \<open>The whole store\<close>

definition built_from ::
  "Heap \<Rightarrow> Store \<Rightarrow> (MemoryID \<times> MemoryDefinition) list \<Rightarrow> Heap \<Rightarrow> Store \<Rightarrow> bool" where
  "built_from h s ds h' s' \<longleftrightarrow>
     wf_store h' s' \<and>
     (\<forall>j. memory_of h' s' j = (case map_of (rev ds) j of
        Some d \<Rightarrow> Some (memory_from d) | None \<Rightarrow> memory_of h s j))"

lemma built_from_append:
  "built_from h s xs h1 s1 \<Longrightarrow> built_from h1 s1 ys h2 s2 \<Longrightarrow> built_from h s (xs @ ys) h2 s2"
  by (auto simp: built_from_def map_add_def split: option.splits)

lemma buildOneMemory_built:
  assumes "wf_store h s" and "buildOneMemory h s port key d = Ok (h', s')"
  shows "built_from h s [(\<lparr>Port = port, UnitID = md_UnitID d\<rparr>, d)] h' s'"
proof (cases "buildable \<lparr>Port = port, UnitID = md_UnitID d\<rparr> d")
  case True
  from buildOneMemory_ok [OF True, of h s key] assms(2) obtain r where
    "heap_new h (memory_from d) = (r, h')"
    "Add (Some s) \<lparr>Port = port, UnitID = md_UnitID d\<rparr> (Some r) = Ok s'" by auto
  from wf_store_add [OF assms(1) memory_from_wf this] True show ?thesis
    by (auto simp: built_from_def buildable_def)
next
  case False
  from buildOneMemory_fails [OF this, of h s key] assms(2) show ?thesis by auto
qed

lemma buildNested_loop_built:
  assumes "wf_store h s" and "buildNested_loop li lid port mi ds h s = Ok (h', s')"
  shows "built_from h s (map (\<lambda>d. (\<lparr>Port = port, UnitID = md_UnitID d\<rparr>, d)) ds) h' s'"
  using assms
proof (induction ds arbitrary: mi h s)
  case (Cons d ds)
  from Cons.prems obtain h1 s1 where 1: "buildOneMemory h s port (ListenerPath li lid mi) d = Ok (h1, s1)"
    and 2: "buildNested_loop li lid port (Suc mi) ds h1 s1 = Ok (h', s')"
    by (auto split: outcome.splits)
  note b = buildOneMemory_built [OF Cons.prems(1) 1]
  then have "wf_store h1 s1" by (simp add: built_from_def)
  from built_from_append [OF b Cons.IH [OF this 2]] show ?case by simp
qed (simp add: built_from_def)

lemma buildListeners_loop_built:
  assumes "wf_store h s" and "buildListeners_loop li gs h s = Ok (h', s')"
  shows "built_from h s (declared gs) h' s'"
  using assms
proof (induction gs arbitrary: li h s)
  case (Cons g gs)
  show ?case
  proof (cases "gate_Memory g = []")
    case True
    then have "gate_defs g = []" by (auto simp: gate_defs_def split: outcome.splits)
    with True Cons show ?thesis by simp
  next
    case False
    with Cons.prems obtain port h1 s1 where p: "parseListenPort (gate_Listen g) = Ok port"
      and 1: "buildNested_loop li (gate_ID g) port 0 (gate_Memory g) h s = Ok (h1, s1)"
      and 2: "buildListeners_loop (Suc li) gs h1 s1 = Ok (h', s')"
      by (auto split: outcome.splits)
    note b = buildNested_loop_built [OF Cons.prems(1) 1]
    then have "wf_store h1 s1" by (simp add: built_from_def)
    from built_from_append [OF b Cons.IH [OF this 2]] show ?thesis by (simp add: gate_defs_def p)
  qed
qed (simp add: built_from_def)

lemma BuildMemoryStore_built:
  assumes "BuildMemoryStore (Some cfg) = Ok (h, s)"
  shows "wf_store h s"
    and "memory_of h s mid = map_option memory_from (map_of (rev (declared (cfg_Ingress cfg))) mid)"
    and "cfg_Memories cfg = []"
proof -
  from assms have b: "buildListeners_loop 0 (cfg_Ingress cfg) empty_heap NewStore = Ok (h, s)"
    and l: "cfg_Memories cfg = []"
    by (auto simp: BuildMemoryStore_def split: if_splits)
  from buildListeners_loop_built [OF wf_store_empty b]
  show "wf_store h s"
    and "memory_of h s mid = map_option memory_from (map_of (rev (declared (cfg_Ingress cfg))) mid)"
    by (auto simp: built_from_def memory_of_def NewStore_def split: option.splits)
  from l show "cfg_Memories cfg = []" .
qed

text \<open>Exactly when the store builder succeeds.\<close>

lemma buildOneMemory_is_ok:
  "is_ok (buildOneMemory h s port key d) \<longleftrightarrow> buildable \<lparr>Port = port, UnitID = md_UnitID d\<rparr> d"
proof (cases "buildable \<lparr>Port = port, UnitID = md_UnitID d\<rparr> d")
  case True
  with buildOneMemory_ok [OF True, of h s key] show ?thesis by auto
next
  case False
  with buildOneMemory_fails [OF False, of h s key] show ?thesis by auto
qed

lemma buildNested_loop_is_ok:
  "is_ok (buildNested_loop li lid port mi ds h s) \<longleftrightarrow>
    (\<forall>d \<in> set ds. buildable \<lparr>Port = port, UnitID = md_UnitID d\<rparr> d)"
proof (induction ds arbitrary: mi h s)
  case (Cons d ds)
  from buildOneMemory_is_ok [of h s port "ListenerPath li lid mi" d] Cons.IH show ?case
    by (cases "buildOneMemory h s port (ListenerPath li lid mi) d") auto
qed simp

lemma buildListeners_loop_is_ok:
  "is_ok (buildListeners_loop li gs h s) \<longleftrightarrow>
    (\<forall>g \<in> set gs. gate_ok g) \<and> (\<forall>(mid, d) \<in> set (declared gs). buildable mid d)"
proof (induction gs arbitrary: li h s)
  case (Cons g gs)
  show ?case
  proof (cases "gate_Memory g = []")
    case True
    then show ?thesis using Cons.IH by (auto simp: gate_ok_def gate_defs_def split: outcome.splits)
  next
    case False
    show ?thesis
    proof (cases "parseListenPort (gate_Listen g)")
      case (Ok port)
      have "(\<forall>(mid, d) \<in> set (gate_defs g). buildable mid d) \<longleftrightarrow>
          (\<forall>d \<in> set (gate_Memory g). buildable \<lparr>Port = port, UnitID = md_UnitID d\<rparr> d)"
        by (auto simp: gate_defs_def Ok)
      with Ok False Cons.IH buildNested_loop_is_ok [of li "gate_ID g" port 0 "gate_Memory g" h s]
      show ?thesis
        by (cases "buildNested_loop li (gate_ID g) port 0 (gate_Memory g) h s")
           (auto simp: gate_ok_def ball_Un)
    qed (use False in \<open>simp_all add: gate_ok_def\<close>)
  qed
qed simp

section \<open>Policies\<close>

definition built_rules :: "PolicyRuleConfig list \<Rightarrow> Rule list \<Rightarrow> bool" where
  "built_rules rcs rs \<longleftrightarrow>
     list_all2 (\<lambda>rc r. NewRule (pr_ID rc) (pr_SourceIP rc) (pr_AllowFC rc) = Ok r) rcs rs"

lemma buildRules_loop_built:
  "buildRules_loop ctx i rcs acc = Ok rules \<Longrightarrow>
    \<exists>rs. rules = acc @ map Some rs \<and> built_rules rcs rs"
proof (induction rcs arbitrary: i acc)
  case (Cons rc rcs)
  from Cons.prems obtain r where r: "NewRule (pr_ID rc) (pr_SourceIP rc) (pr_AllowFC rc) = Ok r"
    and "buildRules_loop ctx (Suc i) rcs (acc @ [Some r]) = Ok rules"
    by (auto split: outcome.splits)
  from Cons.IH [OF this(2)] obtain rs where "rules = acc @ map Some (r # rs)" "built_rules rcs rs"
    by auto
  with r show ?case by (auto simp: built_rules_def intro!: exI [of _ "r # rs"])
qed (simp add: built_rules_def)

lemma buildRules_loop_is_ok:
  "is_ok (buildRules_loop ctx i rcs acc) \<longleftrightarrow>
    (\<forall>rc \<in> set rcs. pr_ID rc \<noteq> [] \<and> (\<forall>raw \<in> set (pr_SourceIP rc). item_ok raw))"
proof (induction rcs arbitrary: i acc)
  case (Cons rc rcs)
  from NewRule_is_ok [of "pr_ID rc" "pr_SourceIP rc" "pr_AllowFC rc"] Cons.IH show ?case
    by (cases "NewRule (pr_ID rc) (pr_SourceIP rc) (pr_AllowFC rc)") auto
qed simp

text \<open>
  What the configured rules mean for a source and a function code: the first rule one of whose
  items covers the source decides, by its list of codes.
\<close>

definition rule_covers :: "PolicyRuleConfig \<Rightarrow> Addr \<Rightarrow> bool" where
  "rule_covers rc a \<longleftrightarrow> Addr_IsValid a \<and> (\<exists>raw \<in> set (pr_SourceIP rc). item_covers raw a)"

definition rules_permit :: "PolicyRuleConfig list \<Rightarrow> Addr \<Rightarrow> u8 \<Rightarrow> bool" where
  "rules_permit rcs a fc =
     (case find (\<lambda>rc. rule_covers rc a) rcs of None \<Rightarrow> False | Some rc \<Rightarrow> fc \<in> set (pr_AllowFC rc))"

lemma built_rules_permit:
  "built_rules rcs rs \<Longrightarrow> Allowed (evaluate_rules (map Some rs) a fc) \<longleftrightarrow> rules_permit rcs a fc"
  unfolding built_rules_def
proof (induction rule: list_all2_induct)
  case (Cons rc rcs r rs)
  from Cons.IH NewRule_meaning(1) [OF Cons.hyps(1), of a] NewRule_meaning(2) [OF Cons.hyps(1), of fc]
  show ?case by (simp add: rules_permit_def rule_covers_def)
qed (simp add: rules_permit_def)

definition policy_built :: "MemoryPolicyConfig \<Rightarrow> MemoryPolicy option option \<Rightarrow> bool" where
  "policy_built pc q \<longleftrightarrow>
     (\<exists>rs. q = Some (Some \<lparr>Rules = map Some rs\<rparr>) \<and> built_rules (pc_Rules pc) rs)"

text \<open>The entries stand for the policies of a list of definitions.\<close>

definition policies_for ::
  "policy_entries \<Rightarrow> (MemoryID \<times> MemoryDefinition) list \<Rightarrow> bool" where
  "policies_for out ds \<longleftrightarrow>
     distinct (map fst out) \<and>
     (\<forall>(mid, d) \<in> set ds. \<forall>pc. md_Policy d = Some pc \<longrightarrow> policy_built pc (map_of out mid)) \<and>
     (\<forall>mid. (\<forall>d. (mid, d) \<in> set ds \<longrightarrow> md_Policy d = None) \<longrightarrow> map_of out mid = None)"

lemma addPolicy_built:
  assumes "policies_for out ds" and "addPolicy port ctx d out = Ok out'"
  shows "policies_for out' (ds @ [(\<lparr>Port = port, UnitID = md_UnitID d\<rparr>, d)])"
proof (cases "md_Policy d")
  case None
  with assms show ?thesis by (auto simp: addPolicy_def policies_for_def)
next
  case (Some pc)
  let ?mid = "\<lparr>Port = port, UnitID = md_UnitID d\<rparr>"
  from assms(2) Some obtain rules where new: "map_of out ?mid = None"
    and b: "buildRules_loop ctx 0 (pc_Rules pc) [] = Ok rules"
    and out': "out' = out @ [(?mid, Some \<lparr>Rules = rules\<rparr>)]"
    by (auto simp: addPolicy_def buildPolicyFromDef_def Let_def split: if_splits outcome.splits)
  from buildRules_loop_built [OF b] have pb: "policy_built pc (Some (Some \<lparr>Rules = rules\<rparr>))"
    by (auto simp: policy_built_def)
  have look: "map_of out' j = (if j = ?mid then Some (Some \<lparr>Rules = rules\<rparr>) else map_of out j)" for j
    using new by (auto simp: out' map_add_def split: option.splits)
  have "distinct (map fst out')"
    using assms(1) new by (auto simp: policies_for_def out' map_of_eq_None_iff)
  moreover have "policy_built pc' (map_of out' j)"
    if "(j, d') \<in> set ds" and "md_Policy d' = Some pc'" for j d' pc'
  proof -
    from assms(1) that have "policy_built pc' (map_of out j)" by (auto simp: policies_for_def)
    moreover from this new have "j \<noteq> ?mid" by (auto simp: policy_built_def)
    ultimately show ?thesis by (simp add: look)
  qed
  moreover have "policy_built pc (map_of out' ?mid)" by (simp add: look pb)
  moreover have "map_of out' j = None"
    if "\<forall>d'. (j, d') \<in> set (ds @ [(?mid, d)]) \<longrightarrow> md_Policy d' = None" for j
    using assms(1) that Some by (auto simp: policies_for_def look)
  ultimately show ?thesis using Some by (auto simp: policies_for_def)
qed

lemma policiesLegacy_loop_built:
  assumes "policies_for out ds" and "policiesLegacy_loop kds out = Ok out'"
  shows "policies_for out'
    (ds @ map (\<lambda>(key, d). (\<lparr>Port = md_Port d, UnitID = md_UnitID d\<rparr>, d)) kds)"
  using assms
proof (induction kds arbitrary: out ds)
  case (Cons kd kds)
  obtain key d where kd: "kd = (key, d)" by fastforce
  from Cons.prems obtain out1 where 1: "addPolicy (md_Port d) (LegacyPath key) d out = Ok out1"
    and 2: "policiesLegacy_loop kds out1 = Ok out'"
    by (auto simp: kd split: outcome.splits)
  from Cons.IH [OF addPolicy_built [OF Cons.prems(1) 1] 2] show ?case by (simp add: kd)
qed simp

lemma policiesNested_loop_built:
  assumes "policies_for out ds" and "policiesNested_loop li lid port mi mds out = Ok out'"
  shows "policies_for out' (ds @ map (\<lambda>d. (\<lparr>Port = port, UnitID = md_UnitID d\<rparr>, d)) mds)"
  using assms
proof (induction mds arbitrary: out ds mi)
  case (Cons d mds)
  from Cons.prems obtain out1 where 1: "addPolicy port (ListenerPath li lid mi) d out = Ok out1"
    and 2: "policiesNested_loop li lid port (Suc mi) mds out1 = Ok out'"
    by (auto split: outcome.splits)
  from Cons.IH [OF addPolicy_built [OF Cons.prems(1) 1] 2] show ?case by simp
qed simp

lemma policiesListeners_loop_built:
  assumes "policies_for out ds" and "policiesListeners_loop li gs out = Ok out'"
  shows "policies_for out' (ds @ declared gs)"
  using assms
proof (induction gs arbitrary: li out ds)
  case (Cons g gs)
  show ?case
  proof (cases "gate_Memory g = []")
    case True
    then have "gate_defs g = []" by (auto simp: gate_defs_def split: outcome.splits)
    with True Cons show ?thesis by simp
  next
    case False
    with Cons.prems obtain port out1 where p: "parseListenPort (gate_Listen g) = Ok port"
      and 1: "policiesNested_loop li (gate_ID g) port 0 (gate_Memory g) out = Ok out1"
      and 2: "policiesListeners_loop (Suc li) gs out1 = Ok out'"
      by (auto split: outcome.splits)
    from Cons.IH [OF policiesNested_loop_built [OF Cons.prems(1) 1] 2]
    show ?thesis by (simp add: gate_defs_def p)
  qed
qed simp

lemma BuildAuthorityPolicies_built:
  assumes "BuildAuthorityPolicies (Some cfg) = Ok out" and "cfg_Memories cfg = []"
  shows "policies_for out (declared (cfg_Ingress cfg))"
proof -
  have "policies_for [] []" by (simp add: policies_for_def)
  with policiesListeners_loop_built [of "[]" "[]"] assms show ?thesis
    by (auto simp: BuildAuthorityPolicies_def)
qed

text \<open>Exactly when the policy builder succeeds on memories with distinct identities.\<close>

definition policy_builds :: "MemoryDefinition \<Rightarrow> bool" where
  "policy_builds d \<longleftrightarrow>
     (case md_Policy d of None \<Rightarrow> True
      | Some pc \<Rightarrow> \<forall>rc \<in> set (pc_Rules pc).
          pr_ID rc \<noteq> [] \<and> (\<forall>raw \<in> set (pr_SourceIP rc). item_ok raw))"

lemma addPolicy_is_ok:
  assumes "map_of out \<lparr>Port = port, UnitID = md_UnitID d\<rparr> = None"
  shows "is_ok (addPolicy port ctx d out) \<longleftrightarrow> policy_builds d"
proof (cases "md_Policy d")
  case (Some pc)
  with assms buildRules_loop_is_ok [of ctx 0 "pc_Rules pc" "[]"] show ?thesis
    by (cases "buildRules_loop ctx 0 (pc_Rules pc) []")
       (simp_all add: addPolicy_def buildPolicyFromDef_def policy_builds_def Let_def)
qed (simp add: addPolicy_def policy_builds_def)

lemma addPolicy_keys:
  "addPolicy port ctx d out = Ok out' \<Longrightarrow>
    map_of out j = None \<Longrightarrow> j \<noteq> \<lparr>Port = port, UnitID = md_UnitID d\<rparr> \<Longrightarrow> map_of out' j = None"
  by (auto simp: addPolicy_def Let_def map_add_def split: if_splits outcome.splits)

text \<open>No identity of the list has an entry yet.\<close>

definition unseen :: "policy_entries \<Rightarrow> MemoryID list \<Rightarrow> bool" where
  "unseen out mids \<longleftrightarrow> distinct mids \<and> (\<forall>mid \<in> set mids. map_of out mid = None)"

lemma addPolicy_unseen:
  "unseen out (\<lparr>Port = port, UnitID = md_UnitID d\<rparr> # mids) \<Longrightarrow>
    addPolicy port ctx d out = Ok out' \<Longrightarrow> unseen out' mids"
  by (auto simp: unseen_def intro: addPolicy_keys)

lemma policiesNested_loop_is_ok:
  "unseen out (map (\<lambda>d. \<lparr>Port = port, UnitID = md_UnitID d\<rparr>) mds @ later) \<Longrightarrow>
    is_ok (policiesNested_loop li lid port mi mds out) = (\<forall>d \<in> set mds. policy_builds d) \<and>
    (\<forall>out'. policiesNested_loop li lid port mi mds out = Ok out' \<longrightarrow> unseen out' later)"
proof (induction mds arbitrary: mi out)
  case (Cons d mds)
  then have u: "unseen out (\<lparr>Port = port, UnitID = md_UnitID d\<rparr> #
      (map (\<lambda>d. \<lparr>Port = port, UnitID = md_UnitID d\<rparr>) mds @ later))" by simp
  then have "map_of out \<lparr>Port = port, UnitID = md_UnitID d\<rparr> = None" by (simp add: unseen_def)
  note ok = addPolicy_is_ok [OF this, of "ListenerPath li lid mi"]
  show ?case
  proof (cases "addPolicy port (ListenerPath li lid mi) d out")
    case (Ok out1)
    with ok Cons.IH [OF addPolicy_unseen [OF u Ok], of "Suc mi"] show ?thesis by simp
  qed (use ok in auto)
qed simp

lemma policiesListeners_loop_is_ok:
  "unseen out (map fst (declared gs)) \<Longrightarrow>
    is_ok (policiesListeners_loop li gs out) \<longleftrightarrow>
    (\<forall>g \<in> set gs. gate_ok g) \<and> (\<forall>(mid, d) \<in> set (declared gs). policy_builds d)"
proof (induction gs arbitrary: li out)
  case (Cons g gs)
  show ?case
  proof (cases "gate_Memory g = []")
    case True
    with Cons show ?thesis by (auto simp: gate_ok_def gate_defs_def split: outcome.splits)
  next
    case False
    show ?thesis
    proof (cases "parseListenPort (gate_Listen g)")
      case (Ok port)
      have d: "(\<forall>(mid, d) \<in> set (gate_defs g). policy_builds d) \<longleftrightarrow>
          (\<forall>d \<in> set (gate_Memory g). policy_builds d)"
        by (auto simp: gate_defs_def Ok)
      from Cons.prems have "unseen out (map (\<lambda>d. \<lparr>Port = port, UnitID = md_UnitID d\<rparr>)
          (gate_Memory g) @ map fst (declared gs))"
        by (simp add: gate_defs_def Ok comp_def)
      note n = policiesNested_loop_is_ok [OF this, of li "gate_ID g" 0]
      show ?thesis
      proof (cases "policiesNested_loop li (gate_ID g) port 0 (gate_Memory g) out")
        case ok': (Ok out1)
        with n have "unseen out1 (map fst (declared gs))" by blast
        from Cons.IH [OF this, of "Suc li"] n False show ?thesis
          by (simp add: Ok ok' gate_ok_def ball_Un d)
      qed (use n False in \<open>simp_all add: Ok gate_ok_def ball_Un d\<close>)
    qed (use False in \<open>simp_all add: gate_ok_def\<close>)
  qed
qed simp

end
