(* ===== verification/GoIo.thy ===== *)
theory GoIo
  imports Mma_Prelude
begin

text \<open>
  Byte streams and connections: \<open>io.ReadFull\<close> on the bytes a peer sends before it stops,
  \<open>net.Conn.Write\<close> with its failures, and the contract of a decoder that takes one frame from a
  stream at a time.
\<close>

section \<open>Reading\<close>

datatype io_error = EOF | ErrUnexpectedEOF | ConnError

text \<open>
  \<open>pending\<close> are the bytes that will arrive, \<open>final\<close> is what a read returns after the last of them:
  \<open>EOF\<close> when the peer closed its side, \<open>ConnError\<close> on a broken connection.
\<close>

record Reader =
  pending :: bytes
  final :: io_error

definition ReadFull :: "Reader \<Rightarrow> nat \<Rightarrow> (io_error, bytes) outcome \<times> Reader" where
  "ReadFull r n =
     (if n = 0 then (Ok [], r)
      else if n \<le> length (pending r) then
        (Ok (take n (pending r)), r\<lparr>pending := drop n (pending r)\<rparr>)
      else
        (Err (if pending r \<noteq> [] \<and> final r = EOF then ErrUnexpectedEOF else final r),
         r\<lparr>pending := []\<rparr>))"

lemma ReadFull_ok_iff:
  "ReadFull r n = (Ok bs, r') \<longleftrightarrow>
     length bs = n \<and> pending r = bs @ pending r' \<and> final r' = final r"
  by (cases r; cases r') (auto simp: ReadFull_def append_eq_conv_conj)

lemma ReadFull_not_panic: "fst (ReadFull r n) \<noteq> Panic"
  by (simp add: ReadFull_def)

lemma ReadFull_append:
  "length bs = n \<Longrightarrow>
    ReadFull \<lparr>pending = bs @ rest, final = x\<rparr> n = (Ok bs, \<lparr>pending = rest, final = x\<rparr>)"
  by (simp add: ReadFull_ok_iff)

lemma ReadFull_final: "final (snd (ReadFull r n)) = final r"
  by (simp add: ReadFull_def)

section \<open>Connections\<close>

text \<open>
  \<open>sent\<close> are the byte strings written so far, one per \<open>Write\<close>. \<open>write_fate\<close> says how the next
  writes end: \<open>None\<close> for success, \<open>Some n\<close> for an error after \<open>n\<close> bytes; writes beyond the list
  succeed. The two address fields are \<open>None\<close> when the address is not a TCP address.
\<close>

record Conn =
  incoming :: Reader
  sent :: "bytes list"
  write_fate :: "nat option list"
  closed :: bool
  local_port :: "nat option"
  remote_ip :: "string option"

definition conn_write :: "Conn \<Rightarrow> bytes \<Rightarrow> bool \<times> Conn" where
  "conn_write c bs =
     (case write_fate c of
        [] \<Rightarrow> (True, c\<lparr>sent := sent c @ [bs]\<rparr>)
      | None # fs \<Rightarrow> (True, c\<lparr>sent := sent c @ [bs], write_fate := fs\<rparr>)
      | Some n # fs \<Rightarrow> (False, c\<lparr>sent := sent c @ [take n bs], write_fate := fs\<rparr>))"

definition conn_close :: "Conn \<Rightarrow> Conn" where
  "conn_close c = c\<lparr>closed := True\<rparr>"

lemma conn_write_incoming [simp]:
  "incoming (snd (conn_write c bs)) = incoming c"
  "local_port (snd (conn_write c bs)) = local_port c"
  "remote_ip (snd (conn_write c bs)) = remote_ip c"
  "closed (snd (conn_write c bs)) = closed c"
  by (simp_all add: conn_write_def split: list.splits option.splits)

lemma conn_write_count [simp]: "length (sent (snd (conn_write c bs))) = Suc (length (sent c))"
  by (simp add: conn_write_def split: list.splits option.splits)

text \<open>A connection whose writes all succeed.\<close>

definition writable :: "Conn \<Rightarrow> bool" where
  "writable c \<longleftrightarrow> set (write_fate c) \<subseteq> {None}"

lemma writable_write:
  assumes "writable c"
  shows "fst (conn_write c bs)" and "writable (snd (conn_write c bs))"
    and "sent (snd (conn_write c bs)) = sent c @ [bs]"
  using assms
  by (auto simp: writable_def conn_write_def split: list.splits option.splits)

section \<open>Frame decoders\<close>

text \<open>
  What the connection loops rely on: a successful decode consumed exactly the wire form of the
  frame it returns, wire forms are not empty, and the wire form of a valid frame is decoded
  whatever follows it.
\<close>

locale frame_decoder =
  fixes decode :: "Reader \<Rightarrow> ('e, 'f) outcome \<times> Reader"
    and wire :: "'f \<Rightarrow> bytes"
    and valid :: "'f \<Rightarrow> bool"
  assumes decode_wire: "valid f \<Longrightarrow>
      decode \<lparr>pending = wire f @ rest, final = x\<rparr> = (Ok f, \<lparr>pending = rest, final = x\<rparr>)"
    and decode_sound: "decode r = (Ok f, r') \<Longrightarrow>
      valid f \<and> pending r = wire f @ pending r' \<and> final r' = final r"
    and wire_nonempty: "valid f \<Longrightarrow> wire f \<noteq> []"
begin

lemma decode_shrinks: "decode r = (Ok f, r') \<Longrightarrow> length (pending r') < length (pending r)"
  using decode_sound [of r f r'] wire_nonempty [of f] by auto

lemma self_delimiting:
  assumes "valid f" and "valid g" and "wire f @ xs = wire g @ ys"
  shows "f = g \<and> xs = ys"
proof -
  have "decode \<lparr>pending = wire g @ ys, final = EOF\<rparr> = (Ok f, \<lparr>pending = xs, final = EOF\<rparr>)"
    unfolding assms(3) [symmetric] by (rule decode_wire [OF assms(1)])
  with decode_wire [OF assms(2), of ys EOF] show ?thesis by simp
qed

lemma wire_inj: "valid f \<Longrightarrow> valid g \<Longrightarrow> wire f = wire g \<Longrightarrow> f = g"
  by (rule conjunct1 [OF self_delimiting [of f g "[]" "[]"]]) simp_all

text \<open>A stream is the concatenation of at most one sequence of frames.\<close>

lemma frames_unique:
  assumes "\<forall>f \<in> set fs. valid f" and "\<forall>g \<in> set gs. valid g"
    and "concat (map wire fs) = concat (map wire gs)"
  shows "fs = gs"
  using assms
proof (induction fs arbitrary: gs)
  case Nil
  then show ?case using wire_nonempty by (cases gs) auto
next
  case (Cons f fs)
  then show ?case
  proof (cases gs)
    case Nil
    with Cons.prems show ?thesis using wire_nonempty [of f] by simp
  next
    case (Cons g gs')
    with Cons.prems have "f = g \<and> concat (map wire fs) = concat (map wire gs')"
      by (intro self_delimiting) simp_all
    with Cons Cons.prems Cons.IH [of gs'] show ?thesis by simp
  qed
qed

end

end
