(* ===== verification/Ingress.thy ===== *)
theory Ingress
  imports GoIo Config
begin

text \<open>
  internal/ingress (classifier.go, listener.go): a connection is given to the protocol its first two
  bytes announce. The accept loop around \<open>handleConn\<close> is modelled with the process, in \<open>Gates\<close>.
\<close>

section \<open>Classification (classifier.go)\<close>

datatype Protocol = ProtocolUnknown | ProtocolModbus | ProtocolRawIngest

text \<open>
  \<open>Peek(2)\<close> on a fresh \<open>bufio.Reader\<close>: the next two bytes without consuming them, or the error that
  ended the stream first.
\<close>

definition Peek :: "Reader \<Rightarrow> nat \<Rightarrow> (io_error, bytes) outcome" where
  "Peek r n = (if n \<le> length (pending r) then Ok (take n (pending r)) else Err (final r))"

definition Classify :: "Conn \<Rightarrow> Protocol \<times> Reader \<times> io_error option" where
  "Classify conn =
     (let reader = incoming conn in
      case Peek reader 2 of
        Err e \<Rightarrow> (ProtocolUnknown, reader, Some e)
      | Panic \<Rightarrow> (ProtocolUnknown, reader, None)
      | Ok peek \<Rightarrow>
          if peek ! 0 = 0x52 \<and> peek ! 1 = 0x49 then (ProtocolRawIngest, reader, None)
          else (ProtocolModbus, reader, None))"

section \<open>Dispatch (listener.go)\<close>

record Listener =
  lis_cfg :: IngressGate

definition NewListener :: "IngressGate \<Rightarrow> Listener" where
  "NewListener c = \<lparr>lis_cfg = c\<rparr>"

text \<open>\<open>bufferedConn\<close>: the connection, reading through the reader that peeked.\<close>

definition bufferedConn :: "Conn \<Rightarrow> Reader \<Rightarrow> Conn" where
  "bufferedConn conn r = conn\<lparr>incoming := r\<rparr>"

text \<open>The two callbacks act on a state and on the connection; \<open>None\<close> is a panic.\<close>

definition handleConn ::
  "('s \<Rightarrow> Conn \<Rightarrow> ('s \<times> Conn) option) \<Rightarrow> ('s \<Rightarrow> Conn \<Rightarrow> ('s \<times> Conn) option)
    \<Rightarrow> 's \<Rightarrow> Conn \<Rightarrow> ('s \<times> Conn) option" where
  "handleConn onModbus onRawIngest s conn =
     (case Classify conn of (proto, reader, err) \<Rightarrow>
        if err \<noteq> None then Some (s, conn_close conn)
        else
          let bc = bufferedConn conn reader in
          (case proto of
             ProtocolModbus \<Rightarrow> onModbus s bc
           | ProtocolRawIngest \<Rightarrow> onRawIngest s bc
           | ProtocolUnknown \<Rightarrow> Some (s, conn_close conn)))"

lemma bufferedConn_incoming [simp]: "bufferedConn conn (incoming conn) = conn"
  by (simp add: bufferedConn_def)

lemma Classify_reader: "Classify conn = (proto, reader, err) \<Longrightarrow> reader = incoming conn"
  by (auto simp: Classify_def Let_def split: outcome.splits if_splits)

text \<open>Exactly one of four things happens, and no byte is lost on the way.\<close>

lemma handleConn_cases:
  "handleConn onModbus onRawIngest s conn =
    (if length (pending (incoming conn)) < 2 then Some (s, conn_close conn)
     else if take 2 (pending (incoming conn)) = [0x52, 0x49] then onRawIngest s conn
     else onModbus s conn)"
proof (cases "pending (incoming conn)")
  case (Cons a xs)
  then show ?thesis
    by (cases xs) (auto simp: handleConn_def Classify_def Peek_def Let_def)
qed (simp add: handleConn_def Classify_def Peek_def Let_def)

end
