(* ===== verification/ModbusPdu.thy ===== *)
theory ModbusPdu
  imports GoIo
begin

text \<open>
  internal/transport/modbus, the wire format: request.go, parser.go, mbap.go, pdu.go, pdu_types.go,
  pdu_decode.go, pdu_encode.go and response.go.
\<close>

section \<open>Types and errors\<close>

record Request =
  mb_Port :: u16
  TransactionID :: u16
  ProtocolID :: u16
  Length :: u16
  mb_UnitID :: u8
  FunctionCode :: u8
  Payload :: bytes

record ReadRequestPDU =
  rr_Address :: u16
  rr_Quantity :: u16

record WriteSinglePDU =
  ws_Address :: u16
  ws_Value :: u16

record WriteMultiplePDU =
  wm_Address :: u16
  wm_Quantity :: u16
  wm_Values :: "u16 list"

record WriteMultipleBitsPDU =
  wb_Address :: u16
  wb_Quantity :: u16
  wb_Data :: bytes

record MBAP =
  mbap_TransactionID :: u16
  mbap_ProtocolID :: u16
  mbap_Length :: u16
  mbap_UnitID :: u8

record PDU =
  pdu_Function :: u8
  pdu_Data :: bytes

datatype mb_error =
    IOError io_error
  | InvalidMBAPLength | InvalidPDULength
  | InvalidReadRequestLength | InvalidWriteSingleLength | InvalidWriteMultipleLength
  | ByteCountMismatch | InvalidRegisterByteCount
  | InvalidWriteMultipleBitsLength | InvalidCoilByteCount

section \<open>Reading a request (parser.go)\<close>

definition ReadRequest :: "u16 \<Rightarrow> Reader \<Rightarrow> (mb_error, Request) outcome \<times> Reader" where
  "ReadRequest port r =
     (case ReadFull r 7 of
        (Err e, r1) \<Rightarrow> (Err (IOError e), r1)
      | (Panic, r1) \<Rightarrow> (Panic, r1)
      | (Ok mbap, r1) \<Rightarrow>
          let txID = be16 mbap 0;
              protoID = be16 mbap 2;
              len = be16 mbap 4;
              unitID = mbap ! 6
          in if len = 0 then (Err InvalidMBAPLength, r1)
             else
               let pduLen = int (unat len) - 1
               in if pduLen \<le> 0 then (Err InvalidPDULength, r1)
                  else
                    (case ReadFull r1 (nat pduLen) of
                       (Err e, r2) \<Rightarrow> (Err (IOError e), r2)
                     | (Panic, r2) \<Rightarrow> (Panic, r2)
                     | (Ok pdu, r2) \<Rightarrow>
                         (Ok \<lparr>mb_Port = port, TransactionID = txID, ProtocolID = protoID,
                              Length = len, mb_UnitID = unitID, FunctionCode = pdu ! 0,
                              Payload = drop 1 pdu\<rparr>, r2)))"

text \<open>
  mbap.go and pdu.go hold an older reader and writer that nothing calls. \<open>length-1\<close> is a \<open>uint16\<close>
  subtraction and \<open>buf[0]\<close> panics on an empty buffer.
\<close>

definition readMBAP :: "Reader \<Rightarrow> (mb_error, MBAP) outcome \<times> Reader" where
  "readMBAP r =
     (case ReadFull r 7 of
        (Err e, r1) \<Rightarrow> (Err (IOError e), r1)
      | (Panic, r1) \<Rightarrow> (Panic, r1)
      | (Ok hdr, r1) \<Rightarrow>
          (Ok \<lparr>mbap_TransactionID = be16 hdr 0, mbap_ProtocolID = be16 hdr 2,
               mbap_Length = be16 hdr 4, mbap_UnitID = hdr ! 6\<rparr>, r1))"

definition writeMBAP :: "Conn \<Rightarrow> MBAP \<Rightarrow> bool \<times> Conn" where
  "writeMBAP w mbap =
     (let hdr = replicate 7 0;
          hdr = put_be16 hdr 0 (mbap_TransactionID mbap);
          hdr = put_be16 hdr 2 (mbap_ProtocolID mbap);
          hdr = put_be16 hdr 4 (mbap_Length mbap);
          hdr = hdr[6 := mbap_UnitID mbap]
      in conn_write w hdr)"

definition readPDU :: "Reader \<Rightarrow> u16 \<Rightarrow> (mb_error, PDU) outcome \<times> Reader" where
  "readPDU r len =
     (case ReadFull r (unat (len - 1)) of
        (Err e, r1) \<Rightarrow> (Err (IOError e), r1)
      | (Panic, r1) \<Rightarrow> (Panic, r1)
      | (Ok buf, r1) \<Rightarrow>
          if buf = [] then (Panic, r1)
          else (Ok \<lparr>pdu_Function = buf ! 0, pdu_Data = drop 1 buf\<rparr>, r1))"

section \<open>Decoding payloads (pdu_decode.go)\<close>

definition DecodeReadRequest :: "bytes \<Rightarrow> (mb_error, ReadRequestPDU) outcome" where
  "DecodeReadRequest pdu =
     (if length pdu \<noteq> 4 then Err InvalidReadRequestLength
      else Ok \<lparr>rr_Address = be16 pdu 0, rr_Quantity = be16 pdu 2\<rparr>)"

definition DecodeWriteSingle :: "bytes \<Rightarrow> (mb_error, WriteSinglePDU) outcome" where
  "DecodeWriteSingle pdu =
     (if length pdu \<noteq> 4 then Err InvalidWriteSingleLength
      else Ok \<lparr>ws_Address = be16 pdu 0, ws_Value = be16 pdu 2\<rparr>)"

text \<open>The loop \<open>for i := 0; i < byteCount; i += 2\<close> over the register data.\<close>

function decodeValues :: "bytes \<Rightarrow> nat \<Rightarrow> nat \<Rightarrow> u16 list \<Rightarrow> u16 list" where
  "decodeValues pdu byteCount i vals =
     (if i < byteCount
      then decodeValues pdu byteCount (i + 2) (vals @ [be16 pdu (5 + i)])
      else vals)"
  by pat_completeness auto
termination
  by (relation "measure (\<lambda>(pdu, byteCount, i, vals). byteCount - i)") auto

declare decodeValues.simps [simp del]

definition DecodeWriteMultiple :: "bytes \<Rightarrow> (mb_error, WriteMultiplePDU) outcome" where
  "DecodeWriteMultiple pdu =
     (if length pdu < 5 then Err InvalidWriteMultipleLength
      else
        let addr = be16 pdu 0;
            qty = be16 pdu 2;
            byteCount = unat (pdu ! 4)
        in if length (drop 5 pdu) \<noteq> byteCount then Err ByteCountMismatch
           else if byteCount mod 2 \<noteq> 0 then Err InvalidRegisterByteCount
           else Ok \<lparr>wm_Address = addr, wm_Quantity = qty,
                    wm_Values = decodeValues pdu byteCount 0 []\<rparr>)"

definition DecodeWriteMultipleBits :: "bytes \<Rightarrow> (mb_error, WriteMultipleBitsPDU) outcome" where
  "DecodeWriteMultipleBits pdu =
     (if length pdu < 5 then Err InvalidWriteMultipleBitsLength
      else
        let addr = be16 pdu 0;
            qty = be16 pdu 2;
            byteCount = unat (pdu ! 4)
        in if length (drop 5 pdu) \<noteq> byteCount then Err ByteCountMismatch
           else
             let expected = (if qty \<noteq> 0 then unat ((qty + 7) div 8) else 0)
             in if byteCount \<noteq> expected then Err InvalidCoilByteCount
                else Ok \<lparr>wb_Address = addr, wb_Quantity = qty, wb_Data = drop 5 pdu\<rparr>)"

section \<open>Encoding replies (pdu_encode.go, response.go)\<close>

definition BuildReadResponsePDU :: "u8 \<Rightarrow> bytes \<Rightarrow> bytes" where
  "BuildReadResponsePDU fc dat =
     (let out = replicate (2 + length dat) 0;
          out = out[0 := fc];
          out = out[1 := of_nat (length dat)]
      in overwrite 2 dat out)"

definition BuildWriteSingleResponsePDU :: "u8 \<Rightarrow> u16 \<Rightarrow> u16 \<Rightarrow> bytes" where
  "BuildWriteSingleResponsePDU fc addr val =
     (let out = replicate 5 0;
          out = out[0 := fc];
          out = put_be16 out 1 addr
      in put_be16 out 3 val)"

definition BuildWriteMultipleResponsePDU :: "u8 \<Rightarrow> u16 \<Rightarrow> u16 \<Rightarrow> bytes" where
  "BuildWriteMultipleResponsePDU fc addr qty =
     (let out = replicate 5 0;
          out = out[0 := fc];
          out = put_be16 out 1 addr
      in put_be16 out 3 qty)"

definition BuildExceptionPDU :: "u8 \<Rightarrow> u8 \<Rightarrow> bytes" where
  "BuildExceptionPDU fc code = [fc OR 0x80, code]"

definition BuildResponse :: "Request \<Rightarrow> bytes \<Rightarrow> bytes" where
  "BuildResponse req pdu =
     (let len = (of_nat (length pdu + 1) :: u16);
          out = replicate (7 + length pdu) 0;
          out = put_be16 out 0 (TransactionID req);
          out = put_be16 out 2 (ProtocolID req);
          out = put_be16 out 4 len;
          out = out[6 := mb_UnitID req]
      in overwrite 7 pdu out)"

section \<open>Wire forms\<close>

definition request_wire :: "Request \<Rightarrow> bytes" where
  "request_wire q =
     be16_bytes (TransactionID q) @ be16_bytes (ProtocolID q) @ be16_bytes (Length q)
       @ [mb_UnitID q, FunctionCode q] @ Payload q"

definition request_valid :: "u16 \<Rightarrow> Request \<Rightarrow> bool" where
  "request_valid port q \<longleftrightarrow> mb_Port q = port \<and> unat (Length q) = length (Payload q) + 2"

lemma BuildReadResponsePDU_eq: "BuildReadResponsePDU fc dat = fc # of_nat (length dat) # dat"
  by (simp add: BuildReadResponsePDU_def overwrite_def)

lemma BuildWriteSingleResponsePDU_eq:
  "BuildWriteSingleResponsePDU fc addr val = fc # be16_bytes addr @ be16_bytes val"
  by (simp add: BuildWriteSingleResponsePDU_def put_be16_def be16_bytes_def numeral_eq_Suc)

lemma BuildWriteMultipleResponsePDU_eq:
  "BuildWriteMultipleResponsePDU fc addr qty = fc # be16_bytes addr @ be16_bytes qty"
  by (simp add: BuildWriteMultipleResponsePDU_def put_be16_def be16_bytes_def numeral_eq_Suc)

lemma BuildResponse_eq:
  "BuildResponse req pdu =
     be16_bytes (TransactionID req) @ be16_bytes (ProtocolID req)
       @ be16_bytes (of_nat (length pdu + 1)) @ mb_UnitID req # pdu"
  by (simp add: BuildResponse_def Let_def overwrite_def put_be16_def be16_bytes_def numeral_eq_Suc)

lemma list7:
  assumes "length bs = 7"
  shows "bs = be16_bytes (be16 bs 0) @ be16_bytes (be16 bs 2) @ be16_bytes (be16 bs 4) @ [bs ! 6]"
proof -
  have "bs = [bs ! 0, bs ! 1, bs ! 2, bs ! 3, bs ! 4, bs ! 5, bs ! 6]"
    using assms by (auto simp: numeral_eq_Suc length_Suc_conv)
  moreover have "be16_bytes (be16 bs 0) = [bs ! 0, bs ! 1]" "be16_bytes (be16 bs 2) = [bs ! 2, bs ! 3]"
    "be16_bytes (be16 bs 4) = [bs ! 4, bs ! 5]"
    using assms by (simp_all add: be16_bytes_be16)
  ultimately show ?thesis by simp
qed

lemma nat_pred: "nat (int n - 1) = n - 1"
  by simp

lemma ReadRequest_wire:
  assumes "request_valid port q"
  shows "ReadRequest port \<lparr>pending = request_wire q @ rest, final = x\<rparr>
    = (Ok q, \<lparr>pending = rest, final = x\<rparr>)"
proof -
  let ?h = "be16_bytes (TransactionID q) @ be16_bytes (ProtocolID q) @ be16_bytes (Length q)
       @ [mb_UnitID q]"
  have 1: "ReadFull \<lparr>pending = ?h @ (FunctionCode q # Payload q) @ rest, final = x\<rparr> 7
      = (Ok ?h, \<lparr>pending = (FunctionCode q # Payload q) @ rest, final = x\<rparr>)"
    by (rule ReadFull_append) simp
  have 2: "ReadFull \<lparr>pending = (FunctionCode q # Payload q) @ rest, final = x\<rparr>
      (nat (int (unat (Length q)) - 1))
      = (Ok (FunctionCode q # Payload q), \<lparr>pending = rest, final = x\<rparr>)"
    using assms by (intro ReadFull_append) (simp add: request_valid_def)
  have l: "unat (Length q) = length (Payload q) + 2" "mb_Port q = port"
    using assms by (simp_all add: request_valid_def)
  then have "Length q \<noteq> 0" by auto
  with l 1 2 show ?thesis
    by (cases q) (simp add: ReadRequest_def request_wire_def Let_def)
qed

lemma ReadRequest_sound:
  assumes "ReadRequest port r = (Ok q, r')"
  shows "request_valid port q \<and> pending r = request_wire q @ pending r' \<and> final r' = final r"
proof -
  from assms obtain mbap r1 pdu where
    1: "ReadFull r 7 = (Ok mbap, r1)" and
    2: "ReadFull r1 (nat (int (unat (be16 mbap 4)) - 1)) = (Ok pdu, r')" and
    len: "int (unat (be16 mbap 4)) - 1 > 0" and
    q: "q = \<lparr>mb_Port = port, TransactionID = be16 mbap 0, ProtocolID = be16 mbap 2,
              Length = be16 mbap 4, mb_UnitID = mbap ! 6, FunctionCode = pdu ! 0,
              Payload = drop 1 pdu\<rparr>"
    by (auto simp: ReadRequest_def Let_def split: prod.splits outcome.splits if_splits)
  note 2 = 2 [unfolded nat_pred]
  from len have gt: "unat (be16 mbap 4) > 1" by linarith
  with 2 have pdu: "length pdu = unat (be16 mbap 4) - 1" "pdu \<noteq> []"
    by (auto simp: ReadFull_ok_iff)
  then have "pdu = FunctionCode q # Payload q"
    by (cases pdu) (simp_all add: q)
  moreover have "mbap = be16_bytes (be16 mbap 0) @ be16_bytes (be16 mbap 2)
      @ be16_bytes (be16 mbap 4) @ [mbap ! 6]"
    using 1 by (intro list7) (simp add: ReadFull_ok_iff)
  ultimately have "request_wire q = mbap @ pdu" by (simp add: request_wire_def q)
  with 1 2 pdu gt show ?thesis
    by (auto simp: ReadFull_ok_iff request_valid_def q)
qed

interpretation modbus_frames: frame_decoder "ReadRequest port" request_wire "request_valid port"
  for port
proof (unfold_locales, goal_cases)
  case (1 f rest x)
  then show ?case by (rule ReadRequest_wire)
next
  case (2 r f r')
  then show ?case by (rule ReadRequest_sound)
qed (simp add: request_wire_def be16_bytes_def)

lemma ReadRequest_not_panic: "fst (ReadRequest port r) \<noteq> Panic"
  using ReadFull_not_panic
  by (auto simp: ReadRequest_def Let_def split: prod.splits outcome.splits)
     (metis fst_conv)+

section \<open>Payload layouts\<close>

text \<open>What a client puts in the payload of each kind of request.\<close>

definition read_payload :: "u16 \<Rightarrow> u16 \<Rightarrow> bytes" where
  "read_payload addr qty = be16_bytes addr @ be16_bytes qty"

definition write_payload :: "u16 \<Rightarrow> u16 \<Rightarrow> bytes \<Rightarrow> bytes" where
  "write_payload addr qty dat = be16_bytes addr @ be16_bytes qty @ of_nat (length dat) # dat"

lemma length_read_payload [simp]: "length (read_payload addr qty) = 4"
  by (simp add: read_payload_def)

lemma length_write_payload [simp]: "length (write_payload addr qty dat) = 5 + length dat"
  by (simp add: write_payload_def)

lemma payload_fields [simp]:
  "be16 (read_payload addr qty) 0 = addr" "be16 (read_payload addr qty) 2 = qty"
  "be16 (write_payload addr qty dat) 0 = addr" "be16 (write_payload addr qty dat) 2 = qty"
  "write_payload addr qty dat ! 4 = of_nat (length dat)"
  "drop 5 (write_payload addr qty dat) = dat"
  by (simp_all add: read_payload_def write_payload_def)

lemma four_bytes_payload: "length p = 4 \<Longrightarrow> p = read_payload (be16 p 0) (be16 p 2)"
proof -
  assume l: "length p = 4"
  then have "p = [p ! 0, p ! 1, p ! 2, p ! 3]"
    by (auto simp: numeral_eq_Suc length_Suc_conv)
  with l show ?thesis by (simp add: read_payload_def be16_bytes_be16)
qed

lemma long_payload:
  assumes "5 \<le> length p" and "length (drop 5 p) = unat (p ! 4)"
  shows "p = write_payload (be16 p 0) (be16 p 2) (drop 5 p)"
proof -
  have "drop 4 p = p ! 4 # drop 5 p"
    using assms(1) Cons_nth_drop_Suc [of 4 p] by simp
  moreover have "take 4 p = read_payload (be16 p 0) (be16 p 2)"
    using assms(1) four_bytes_payload [of "take 4 p"] by (simp add: be16_def)
  moreover have "p ! 4 = of_nat (length (drop 5 p))"
    unfolding assms(2) by simp
  ultimately have "take 4 p @ drop 4 p = write_payload (be16 p 0) (be16 p 2) (drop 5 p)"
    by (simp add: write_payload_def read_payload_def)
  then show ?thesis by simp
qed

lemma decodeValues_eq:
  assumes "even byteCount" and "length (drop 5 pdu) = byteCount" and "even i"
  shows "decodeValues pdu byteCount i vals = vals @ bytes_regs (drop (5 + i) pdu)"
  using assms
proof (induction pdu byteCount i vals rule: decodeValues.induct)
  case (1 pdu byteCount i vals)
  show ?case
  proof (cases "i < byteCount")
    case True
    with "1.prems" have "Suc i < byteCount" by presburger
    with "1.prems" have "drop (5 + i) pdu = pdu ! (5 + i) # pdu ! (6 + i) # drop (7 + i) pdu"
      using Cons_nth_drop_Suc [of "5 + i" pdu] Cons_nth_drop_Suc [of "6 + i" pdu] by simp
    then have "bytes_regs (drop (5 + i) pdu)
        = be16 pdu (5 + i) # bytes_regs (drop (7 + i) pdu)"
      by (simp add: be16_def)
    with True "1.IH" "1.prems" show ?thesis
      by (subst decodeValues.simps) (simp add: add.commute)
  next
    case False
    with "1.prems" show ?thesis by (subst decodeValues.simps) simp
  qed
qed

lemma DecodeReadRequest_payload [simp]:
  "DecodeReadRequest (read_payload addr qty) = Ok \<lparr>rr_Address = addr, rr_Quantity = qty\<rparr>"
  by (simp add: DecodeReadRequest_def)

lemma DecodeWriteSingle_payload [simp]:
  "DecodeWriteSingle (read_payload addr val) = Ok \<lparr>ws_Address = addr, ws_Value = val\<rparr>"
  by (simp add: DecodeWriteSingle_def)

lemma DecodeWriteMultiple_iff:
  "DecodeWriteMultiple p = Ok d \<longleftrightarrow>
    length (wm_Values d) \<le> 127 \<and>
    p = write_payload (wm_Address d) (wm_Quantity d) (regs_bytes (wm_Values d))"
proof
  assume ok: "DecodeWriteMultiple p = Ok d"
  then have 5: "5 \<le> length p" and bc: "length (drop 5 p) = unat (p ! 4)"
    and ev4: "even (unat (p ! 4))"
    and d: "d = \<lparr>wm_Address = be16 p 0, wm_Quantity = be16 p 2,
              wm_Values = decodeValues p (unat (p ! 4)) 0 []\<rparr>"
    by (auto simp: DecodeWriteMultiple_def Let_def split: if_splits)
  from ev4 have ev: "even (length (drop 5 p))" unfolding bc .
  have vs: "decodeValues p (unat (p ! 4)) 0 [] = bytes_regs (drop 5 p)"
    using decodeValues_eq [of "unat (p ! 4)" p 0 "[]"] bc ev4 by simp
  have "length (drop 5 p) < 256" unfolding bc by simp
  then have "length (wm_Values d) \<le> 127" by (simp add: vs d)
  moreover have "p = write_payload (wm_Address d) (wm_Quantity d) (regs_bytes (wm_Values d))"
    using long_payload [OF 5 bc] regs_bytes_regs [OF ev] by (simp add: vs d)
  ultimately show "length (wm_Values d) \<le> 127 \<and>
    p = write_payload (wm_Address d) (wm_Quantity d) (regs_bytes (wm_Values d))" by blast
next
  assume a: "length (wm_Values d) \<le> 127 \<and>
    p = write_payload (wm_Address d) (wm_Quantity d) (regs_bytes (wm_Values d))"
  then have "unat (p ! 4) = 2 * length (wm_Values d)"
    by (simp add: unat_of_nat del: of_nat_mult)
  with a decodeValues_eq [of "2 * length (wm_Values d)" p 0 "[]"]
  show "DecodeWriteMultiple p = Ok d"
    by (cases d) (auto simp: DecodeWriteMultiple_def Let_def)
qed

lemma DecodeWriteMultipleBits_iff:
  "DecodeWriteMultipleBits p = Ok d \<longleftrightarrow>
    length (wb_Data d) \<le> 255 \<and>
    length (wb_Data d) = (if wb_Quantity d = 0 then 0 else unat ((wb_Quantity d + 7) div 8)) \<and>
    p = write_payload (wb_Address d) (wb_Quantity d) (wb_Data d)"
proof
  assume ok: "DecodeWriteMultipleBits p = Ok d"
  then have 5: "5 \<le> length p" and bc: "length (drop 5 p) = unat (p ! 4)"
    and ex: "unat (p ! 4) = (if be16 p 2 \<noteq> 0 then unat ((be16 p 2 + 7) div 8) else 0)"
    and d: "d = \<lparr>wb_Address = be16 p 0, wb_Quantity = be16 p 2, wb_Data = drop 5 p\<rparr>"
    by (auto simp: DecodeWriteMultipleBits_def Let_def split: if_splits)
  have "length (drop 5 p) < 256" unfolding bc by simp
  with long_payload [OF 5 bc] bc ex
  show "length (wb_Data d) \<le> 255 \<and>
    length (wb_Data d) = (if wb_Quantity d = 0 then 0 else unat ((wb_Quantity d + 7) div 8)) \<and>
    p = write_payload (wb_Address d) (wb_Quantity d) (wb_Data d)"
    by (auto simp: d)
next
  assume a: "length (wb_Data d) \<le> 255 \<and>
    length (wb_Data d) = (if wb_Quantity d = 0 then 0 else unat ((wb_Quantity d + 7) div 8)) \<and>
    p = write_payload (wb_Address d) (wb_Quantity d) (wb_Data d)"
  then have "unat (of_nat (length (wb_Data d)) :: u8) = length (wb_Data d)"
    by (simp add: unat_of_nat)
  with a show "DecodeWriteMultipleBits p = Ok d"
    by (auto simp: DecodeWriteMultipleBits_def Let_def)
qed

end
