(* ===== verification/ModbusDispatch.thy ===== *)
theory ModbusDispatch
  imports ModbusPdu MemStore
begin

text \<open>
  internal/transport/modbus/dispatch_memorycore.go: one handler per function code, from a parsed
  request to a reply. A handler reads and writes instances through the store's pointers, so it maps
  a heap to a heap and a reply; \<open>None\<close> is a panic.
\<close>

definition memory_id :: "Request \<Rightarrow> MemoryID" where
  "memory_id req = \<lparr>Port = mb_Port req, UnitID = ucast (mb_UnitID req)\<rparr>"

definition resolveMemory :: "Store option \<Rightarrow> Request \<Rightarrow> mem_ref option \<times> bool" where
  "resolveMemory store req =
     (case MustGet store (memory_id req) of
        Ok mem \<Rightarrow> (mem, True)
      | Err _ \<Rightarrow> (None, False)
      | Panic \<Rightarrow> (None, False))"

text \<open>The package's own copy of \<open>bytesForBits\<close>.\<close>

definition mb_bytesForBits :: "u16 \<Rightarrow> nat" where
  "mb_bytesForBits n = (if n = 0 then 0 else unat ((n + 7) div 8))"

text \<open>The effect of a successful write through a pointer.\<close>

definition put_through :: "Heap \<Rightarrow> mem_ref option \<Rightarrow> Memory \<Rightarrow> Heap" where
  "put_through h p m = (case p of None \<Rightarrow> h | Some r \<Rightarrow> heap_put h r m)"

definition handleReadBits ::
  "Heap \<Rightarrow> Store option \<Rightarrow> Request \<Rightarrow> Area \<Rightarrow> (Heap \<times> bytes) option" where
  "handleReadBits h store req area =
     (case DecodeReadRequest (Payload req) of
        Panic \<Rightarrow> None
      | Err _ \<Rightarrow> Some (h, BuildExceptionPDU (FunctionCode req) 0x03)
      | Ok decoded \<Rightarrow>
        if rr_Quantity decoded = 0 then Some (h, BuildExceptionPDU (FunctionCode req) 0x03) else
        (case resolveMemory store req of (mem, ok) \<Rightarrow>
         if \<not> ok then Some (h, BuildExceptionPDU (FunctionCode req) 0x02) else
         let buf = replicate (mb_bytesForBits (rr_Quantity decoded)) 0 in
         (case ReadBits (deref h mem) area (rr_Address decoded) (rr_Quantity decoded) buf of
            Panic \<Rightarrow> None
          | Err _ \<Rightarrow> Some (h, BuildExceptionPDU (FunctionCode req) 0x02)
          | Ok buf' \<Rightarrow> Some (h, BuildReadResponsePDU (FunctionCode req) buf'))))"

definition handleWriteSingleCoil ::
  "Heap \<Rightarrow> Store option \<Rightarrow> Request \<Rightarrow> (Heap \<times> bytes) option" where
  "handleWriteSingleCoil h store req =
     (case DecodeWriteSingle (Payload req) of
        Panic \<Rightarrow> None
      | Err _ \<Rightarrow> Some (h, BuildExceptionPDU (FunctionCode req) 0x03)
      | Ok decoded \<Rightarrow>
        (case (if ws_Value decoded = 0xFF00 then Some (0x01 :: u8)
               else if ws_Value decoded = 0x0000 then Some 0x00 else None) of
           None \<Rightarrow> Some (h, BuildExceptionPDU (FunctionCode req) 0x03)
         | Some src \<Rightarrow>
           (case resolveMemory store req of (mem, ok) \<Rightarrow>
            if \<not> ok then Some (h, BuildExceptionPDU (FunctionCode req) 0x02) else
            (case WriteBits (deref h mem) AreaCoils (ws_Address decoded) 1 [src] of
               Panic \<Rightarrow> None
             | Err _ \<Rightarrow> Some (h, BuildExceptionPDU (FunctionCode req) 0x02)
             | Ok m' \<Rightarrow> Some (put_through h mem m',
                 BuildWriteSingleResponsePDU (FunctionCode req) (ws_Address decoded)
                   (ws_Value decoded))))))"

definition handleWriteMultipleCoils ::
  "Heap \<Rightarrow> Store option \<Rightarrow> Request \<Rightarrow> (Heap \<times> bytes) option" where
  "handleWriteMultipleCoils h store req =
     (case DecodeWriteMultipleBits (Payload req) of
        Panic \<Rightarrow> None
      | Err _ \<Rightarrow> Some (h, BuildExceptionPDU (FunctionCode req) 0x03)
      | Ok decoded \<Rightarrow>
        if wb_Quantity decoded = 0 then Some (h, BuildExceptionPDU (FunctionCode req) 0x03) else
        (case resolveMemory store req of (mem, ok) \<Rightarrow>
         if \<not> ok then Some (h, BuildExceptionPDU (FunctionCode req) 0x02) else
         (case WriteBits (deref h mem) AreaCoils (wb_Address decoded) (wb_Quantity decoded)
                 (wb_Data decoded) of
            Panic \<Rightarrow> None
          | Err _ \<Rightarrow> Some (h, BuildExceptionPDU (FunctionCode req) 0x02)
          | Ok m' \<Rightarrow> Some (put_through h mem m',
              BuildWriteMultipleResponsePDU (FunctionCode req) (wb_Address decoded)
                (wb_Quantity decoded)))))"

definition handleReadRegs ::
  "Heap \<Rightarrow> Store option \<Rightarrow> Request \<Rightarrow> Area \<Rightarrow> (Heap \<times> bytes) option" where
  "handleReadRegs h store req area =
     (case DecodeReadRequest (Payload req) of
        Panic \<Rightarrow> None
      | Err _ \<Rightarrow> Some (h, BuildExceptionPDU (FunctionCode req) 0x03)
      | Ok decoded \<Rightarrow>
        (case resolveMemory store req of (mem, ok) \<Rightarrow>
         if \<not> ok then Some (h, BuildExceptionPDU (FunctionCode req) 0x02) else
         let buf = replicate (unat (rr_Quantity decoded) * 2) 0 in
         (case ReadRegs (deref h mem) area (rr_Address decoded) (rr_Quantity decoded) buf of
            Panic \<Rightarrow> None
          | Err _ \<Rightarrow> Some (h, BuildExceptionPDU (FunctionCode req) 0x02)
          | Ok buf' \<Rightarrow> Some (h, BuildReadResponsePDU (FunctionCode req) buf'))))"

definition handleWriteSingleReg ::
  "Heap \<Rightarrow> Store option \<Rightarrow> Request \<Rightarrow> (Heap \<times> bytes) option" where
  "handleWriteSingleReg h store req =
     (case DecodeWriteSingle (Payload req) of
        Panic \<Rightarrow> None
      | Err _ \<Rightarrow> Some (h, BuildExceptionPDU (FunctionCode req) 0x03)
      | Ok decoded \<Rightarrow>
        (case resolveMemory store req of (mem, ok) \<Rightarrow>
         if \<not> ok then Some (h, BuildExceptionPDU (FunctionCode req) 0x02) else
         let src = put_be16 (replicate 2 0) 0 (ws_Value decoded) in
         (case WriteRegs (deref h mem) AreaHoldingRegs (ws_Address decoded) 1 src of
            Panic \<Rightarrow> None
          | Err _ \<Rightarrow> Some (h, BuildExceptionPDU (FunctionCode req) 0x02)
          | Ok m' \<Rightarrow> Some (put_through h mem m',
              BuildWriteSingleResponsePDU (FunctionCode req) (ws_Address decoded)
                (ws_Value decoded)))))"

text \<open>The loop \<open>for i, v := range decoded.Values\<close> that serialises the registers.\<close>

fun putValues :: "u16 list \<Rightarrow> nat \<Rightarrow> bytes \<Rightarrow> bytes" where
  "putValues [] i src = src"
| "putValues (v # vs) i src = putValues vs (Suc i) (put_be16 src (i * 2) v)"

definition handleWriteMultipleRegs ::
  "Heap \<Rightarrow> Store option \<Rightarrow> Request \<Rightarrow> (Heap \<times> bytes) option" where
  "handleWriteMultipleRegs h store req =
     (case DecodeWriteMultiple (Payload req) of
        Panic \<Rightarrow> None
      | Err _ \<Rightarrow> Some (h, BuildExceptionPDU (FunctionCode req) 0x03)
      | Ok decoded \<Rightarrow>
        if wm_Quantity decoded = 0 \<or> unat (wm_Quantity decoded) \<noteq> length (wm_Values decoded)
        then Some (h, BuildExceptionPDU (FunctionCode req) 0x03) else
        (case resolveMemory store req of (mem, ok) \<Rightarrow>
         if \<not> ok then Some (h, BuildExceptionPDU (FunctionCode req) 0x02) else
         let src = putValues (wm_Values decoded) 0 (replicate (length (wm_Values decoded) * 2) 0) in
         (case WriteRegs (deref h mem) AreaHoldingRegs (wm_Address decoded) (wm_Quantity decoded)
                 src of
            Panic \<Rightarrow> None
          | Err _ \<Rightarrow> Some (h, BuildExceptionPDU (FunctionCode req) 0x02)
          | Ok m' \<Rightarrow> Some (put_through h mem m',
              BuildWriteMultipleResponsePDU (FunctionCode req) (wm_Address decoded)
                (wm_Quantity decoded)))))"

definition DispatchMemory ::
  "Heap \<Rightarrow> Store option \<Rightarrow> Request \<Rightarrow> (Heap \<times> bytes) option" where
  "DispatchMemory h store req =
     (if FunctionCode req = 1 then handleReadBits h store req AreaCoils
      else if FunctionCode req = 2 then handleReadBits h store req AreaDiscreteInputs
      else if FunctionCode req = 3 then handleReadRegs h store req AreaHoldingRegs
      else if FunctionCode req = 4 then handleReadRegs h store req AreaInputRegs
      else if FunctionCode req = 5 then handleWriteSingleCoil h store req
      else if FunctionCode req = 6 then handleWriteSingleReg h store req
      else if FunctionCode req = 15 then handleWriteMultipleCoils h store req
      else if FunctionCode req = 16 then handleWriteMultipleRegs h store req
      else Some (h, BuildExceptionPDU (FunctionCode req) 0x01))"

lemmas handler_defs = handleReadBits_def handleWriteSingleCoil_def handleWriteMultipleCoils_def
  handleReadRegs_def handleWriteSingleReg_def handleWriteMultipleRegs_def

section \<open>Resolution\<close>

lemma resolve_None: "store_data s (memory_id req) = None \<Longrightarrow> resolveMemory (Some s) req = (None, False)"
  by (simp add: resolveMemory_def MustGet_simp)

lemma resolve_Some: "store_data s (memory_id req) = Some r \<Longrightarrow> resolveMemory (Some s) req = (Some r, True)"
  by (simp add: resolveMemory_def MustGet_simp)

lemma deref_memory_of: "store_data s mid = Some r \<Longrightarrow> deref h (Some r) = memory_of h s mid"
  by (simp add: deref_def memory_of_def)

lemma mb_bytesForBits_eq: "mb_bytesForBits = bytesForBits"
  by (simp add: fun_eq_iff mb_bytesForBits_def bytesForBits_def)

lemma putValues_eq:
  "2 * i + 2 * length vs \<le> length src \<Longrightarrow> putValues vs i src = overwrite (2 * i) (regs_bytes vs) src"
proof (induction vs arbitrary: i src)
  case (Cons v vs)
  then show ?case
    using put_be16_overwrite [of "2 * i" vs src v]
    by (simp add: mult.commute del: regs_bytes_simps) 
qed simp

lemma putValues_full: "putValues vs 0 (replicate (length vs * 2) 0) = regs_bytes vs"
  using putValues_eq [of 0 vs "replicate (length vs * 2) 0"] by (simp add: overwrite_full)

end
