(* ===== verification/Appliance.thy ===== *)
theory Appliance
  imports MemStore
begin

text \<open>
  The abstract appliance: a map from identities to partial maps of cells, the commands on it, and
  the abstraction of a store and its heap. Both protocols are proved against it.
\<close>

section \<open>The abstract appliance\<close>

type_synonym appliance = "MemoryID \<Rightarrow> (Area \<Rightarrow> nat \<Rightarrow> cell option) option"

datatype command =
    ReadCells Area u16 u16
  | WriteCells Area u16 "cell list"
  | Reject u8

datatype result = Cells "cell list" | Ack | Exception u8

definition defined_run :: "(Area \<Rightarrow> nat \<Rightarrow> cell option) \<Rightarrow> Area \<Rightarrow> nat \<Rightarrow> nat \<Rightarrow> bool" where
  "defined_run f area a n \<longleftrightarrow> n \<noteq> 0 \<and> list_all (\<lambda>k. f area (a + k) \<noteq> None) [0..<n]"

definition run_of :: "(Area \<Rightarrow> nat \<Rightarrow> cell option) \<Rightarrow> Area \<Rightarrow> nat \<Rightarrow> nat \<Rightarrow> cell list" where
  "run_of f area a n = map (\<lambda>k. the (f area (a + k))) [0..<n]"

fun exec_command :: "appliance \<Rightarrow> MemoryID \<Rightarrow> command \<Rightarrow> appliance \<times> result" where
  "exec_command A mid (Reject code) = (A, Exception code)"
| "exec_command A mid (ReadCells area addr n) =
     (case A mid of None \<Rightarrow> (A, Exception 2)
      | Some f \<Rightarrow> if defined_run f area (unat addr) (unat n)
                  then (A, Cells (run_of f area (unat addr) (unat n))) else (A, Exception 2))"
| "exec_command A mid (WriteCells area addr cs) =
     (case A mid of None \<Rightarrow> (A, Exception 2)
      | Some f \<Rightarrow> if defined_run f area (unat addr) (length cs)
                  then (A(mid \<mapsto> upd_cells f area (unat addr) (length cs) ((!) cs)), Ack)
                  else (A, Exception 2))"

text \<open>The bit cells a packed byte string denotes, and the values in cells.\<close>

definition bit_run :: "bytes \<Rightarrow> nat \<Rightarrow> cell list" where
  "bit_run bs n = map (\<lambda>k. BitCell (bit_at bs k)) [0..<n]"

fun cell_bit :: "cell \<Rightarrow> bool" where
  "cell_bit (BitCell b) = b"
| "cell_bit (RegCell _) = False"

fun cell_reg :: "cell \<Rightarrow> u16" where
  "cell_reg (RegCell r) = r"
| "cell_reg (BitCell _) = 0"

section \<open>The store as an appliance\<close>

definition abs_store :: "Heap \<Rightarrow> Store \<Rightarrow> appliance" where
  "abs_store h s = (\<lambda>mid. map_option cell_at (memory_of h s mid))"

lemma abs_store_put:
  "wf_store h s \<Longrightarrow> store_data s mid = Some r \<Longrightarrow>
    abs_store (heap_put h r m') s = (abs_store h s)(mid \<mapsto> cell_at m')"
  by (simp add: abs_store_def fun_eq_iff memory_of_put)

lemma defined_run_has_cells:
  "defined_run (cell_at m) area (unat addr) (unat n) \<longleftrightarrow> has_cells m area addr n"
  by (auto simp: defined_run_def has_cells_def list_all_iff unat_gt_0)

lemma command_read_bits:
  assumes "backed_memory m" and "IsBitArea area" and "has_cells m area addr n"
  shows "ReadBits (Some m) area addr n (replicate (bytesForBits n) 0)
    = Ok (pack_bits (map cell_bit (run_of (cell_at m) area (unat addr) (unat n))))"
proof -
  let ?r = "ReadBits (Some m) area addr n (replicate (bytesForBits n) 0)"
  from assms have "is_ok ?r" by (simp add: ReadBits_is_ok)
  then obtain d where d: "?r = Ok d" by (auto simp: is_ok_iff)
  note eff = ReadBits_effect [OF assms(1) d]
  from d obtain l bs where b: "bitBacking m area = Some (Some l, bs)" and c: "Contains l addr n"
    by (rule ReadBits_ok_cases)
  from Offset_off [OF c] backed_bitBacking [OF assms(1) b] have small: "unat n < 65529" by auto
  have "d = pack_bits (map cell_bit (run_of (cell_at m) area (unat addr) (unat n)))"
  proof (rule bytes_eq_by_bits)
    show "length d = length (pack_bits (map cell_bit (run_of (cell_at m) area (unat addr) (unat n))))"
      using eff(1) small by (simp add: bytesForBits_small run_of_def)
    show "bit_at d k = bit_at (pack_bits (map cell_bit
        (run_of (cell_at m) area (unat addr) (unat n)))) k" for k
      using eff(2) [of k] eff(3) [of k]
      by (cases "k < unat n") (simp_all add: bit_at_pack_bits run_of_def)
  qed
  with d show ?thesis by simp
qed

lemma command_read_regs:
  assumes "wf_memory m" and "IsRegArea area" and "has_cells m area addr n"
  shows "ReadRegs (Some m) area addr n (replicate (unat n * 2) 0)
    = Ok (regs_bytes (map cell_reg (run_of (cell_at m) area (unat addr) (unat n))))"
proof -
  let ?r = "ReadRegs (Some m) area addr n (replicate (unat n * 2) 0)"
  from assms have "is_ok ?r" by (simp add: ReadRegs_is_ok)
  then obtain d where d: "?r = Ok d" by (auto simp: is_ok_iff)
  note eff = ReadRegs_effect [OF assms(1) d]
  from eff(3) obtain vs where vs: "length vs = unat n" "d = regs_bytes vs"
    by (auto simp: overwrite_full)
  have "vs = map cell_reg (run_of (cell_at m) area (unat addr) (unat n))"
  proof (rule nth_equalityI)
    fix k assume "k < length vs"
    with eff(2) [of k] vs show "vs ! k = map cell_reg (run_of (cell_at m) area (unat addr) (unat n)) ! k"
      by (simp add: run_of_def be16_regs_bytes)
  qed (simp add: vs run_of_def)
  with d vs show ?thesis by simp
qed

lemma not_ok_Err: "no_panic r \<Longrightarrow> \<not> is_ok r \<Longrightarrow> \<exists>e. r = Err e"
  by (cases r) simp_all

text \<open>The two write operations against the abstract write.\<close>

lemma write_bits_op:
  assumes "IsBitArea area" and "bytesForBits n \<le> length src" and "n \<noteq> 0"
    and "cs = map (\<lambda>k. BitCell (bit_at src k)) [0..<unat n]" and "backed_memory m"
  shows "defined_run (cell_at m) area (unat addr) (length cs) \<Longrightarrow>
      \<exists>m'. WriteBits (Some m) area addr n src = Ok m' \<and> backed_memory m' \<and>
        cell_at m' = upd_cells (cell_at m) area (unat addr) (length cs) ((!) cs)"
    and "\<not> defined_run (cell_at m) area (unat addr) (length cs) \<Longrightarrow>
      \<exists>e. WriteBits (Some m) area addr n src = Err e"
proof -
  have len: "length cs = unat n" using assms(4) by simp
  have ok: "is_ok (WriteBits (Some m) area addr n src) \<longleftrightarrow>
      defined_run (cell_at m) area (unat addr) (length cs)"
    unfolding len defined_run_has_cells using assms(1,2) by (simp add: WriteBits_is_ok)
  show "\<exists>m'. WriteBits (Some m) area addr n src = Ok m' \<and> backed_memory m' \<and>
        cell_at m' = upd_cells (cell_at m) area (unat addr) (length cs) ((!) cs)"
    if "defined_run (cell_at m) area (unat addr) (length cs)"
  proof -
    from that ok obtain m' where m': "WriteBits (Some m) area addr n src = Ok m'"
      by (auto simp: is_ok_iff)
    have "upd_cells (cell_at m) area (unat addr) (unat n) (\<lambda>k. BitCell (bit_at src k))
        = upd_cells (cell_at m) area (unat addr) (length cs) ((!) cs)"
      by (auto simp: upd_cells_def fun_eq_iff assms(4) less_diff_conv2)
    with m' WriteBits_effect [OF assms(5) m'] show ?thesis by auto
  qed
  show "\<exists>e. WriteBits (Some m) area addr n src = Err e"
    if "\<not> defined_run (cell_at m) area (unat addr) (length cs)"
    using that ok by (intro not_ok_Err WriteBits_no_panic) simp
qed

lemma write_regs_op:
  assumes "IsRegArea area" and "unat n = length vs" and "n \<noteq> 0" and "backed_memory m"
  shows "defined_run (cell_at m) area (unat addr) (length (map RegCell vs)) \<Longrightarrow>
      \<exists>m'. WriteRegs (Some m) area addr n (regs_bytes vs) = Ok m' \<and> backed_memory m' \<and>
        cell_at m' = upd_cells (cell_at m) area (unat addr) (length (map RegCell vs))
          ((!) (map RegCell vs))"
    and "\<not> defined_run (cell_at m) area (unat addr) (length (map RegCell vs)) \<Longrightarrow>
      \<exists>e. WriteRegs (Some m) area addr n (regs_bytes vs) = Err e"
proof -
  have wf: "wf_memory m" using assms(4) by (simp add: backed_memory_def)
  have len: "length (map RegCell vs) = unat n" using assms(2) by simp
  have ok: "is_ok (WriteRegs (Some m) area addr n (regs_bytes vs)) \<longleftrightarrow>
      defined_run (cell_at m) area (unat addr) (length (map RegCell vs))"
    unfolding len defined_run_has_cells using assms(1,2) by (simp add: WriteRegs_is_ok [OF wf])
  show "\<exists>m'. WriteRegs (Some m) area addr n (regs_bytes vs) = Ok m' \<and> backed_memory m' \<and>
        cell_at m' = upd_cells (cell_at m) area (unat addr) (length (map RegCell vs))
          ((!) (map RegCell vs))"
    if "defined_run (cell_at m) area (unat addr) (length (map RegCell vs))"
  proof -
    from that ok obtain m' where
      m': "WriteRegs (Some m) area addr n (regs_bytes vs) = Ok m'"
      by (auto simp: is_ok_iff)
    have "upd_cells (cell_at m) area (unat addr) (unat n)
          (\<lambda>k. RegCell (be16 (regs_bytes vs) (2 * k)))
        = upd_cells (cell_at m) area (unat addr) (length (map RegCell vs))
          ((!) (map RegCell vs))"
      using assms(2)
      by (auto simp: upd_cells_def fun_eq_iff be16_regs_bytes less_diff_conv2)
    with m' WriteRegs_effect [OF wf m'] backed_same_shape [OF assms(4)] show ?thesis by auto
  qed
  show "\<exists>e. WriteRegs (Some m) area addr n (regs_bytes vs) = Err e"
    if "\<not> defined_run (cell_at m) area (unat addr) (length (map RegCell vs))"
    using that ok by (intro not_ok_Err WriteRegs_no_panic wf) simp
qed

end
