(* ===== verification/ModbusSpec.thy ===== *)
theory ModbusSpec
  imports ModbusDispatch Appliance
begin

text \<open>
  The meaning of a Modbus request as a command on the abstract appliance, the wire form of its
  result, and the proof that the dispatcher implements the command.
\<close>

section \<open>Requests as commands\<close>

text \<open>The command a function code and payload denote.\<close>

definition read_command :: "bool \<Rightarrow> Area \<Rightarrow> bytes \<Rightarrow> command" where
  "read_command bits area p =
     (case DecodeReadRequest p of
        Ok d \<Rightarrow> if rr_Quantity d = 0 then Reject (if bits then 3 else 2)
                else ReadCells area (rr_Address d) (rr_Quantity d)
      | _ \<Rightarrow> Reject 3)"

definition command_of :: "u8 \<Rightarrow> bytes \<Rightarrow> command" where
  "command_of fc p =
     (if fc = 1 then read_command True AreaCoils p
      else if fc = 2 then read_command True AreaDiscreteInputs p
      else if fc = 3 then read_command False AreaHoldingRegs p
      else if fc = 4 then read_command False AreaInputRegs p
      else if fc = 5 then
        (case DecodeWriteSingle p of
           Ok d \<Rightarrow> if ws_Value d = 0xFF00 then WriteCells AreaCoils (ws_Address d) [BitCell True]
                   else if ws_Value d = 0 then WriteCells AreaCoils (ws_Address d) [BitCell False]
                   else Reject 3
         | _ \<Rightarrow> Reject 3)
      else if fc = 6 then
        (case DecodeWriteSingle p of
           Ok d \<Rightarrow> WriteCells AreaHoldingRegs (ws_Address d) [RegCell (ws_Value d)]
         | _ \<Rightarrow> Reject 3)
      else if fc = 15 then
        (case DecodeWriteMultipleBits p of
           Ok d \<Rightarrow> if wb_Quantity d = 0 then Reject 3
                   else WriteCells AreaCoils (wb_Address d)
                          (bit_run (wb_Data d) (unat (wb_Quantity d)))
         | _ \<Rightarrow> Reject 3)
      else if fc = 16 then
        (case DecodeWriteMultiple p of
           Ok d \<Rightarrow> if wm_Quantity d = 0 \<or> unat (wm_Quantity d) \<noteq> length (wm_Values d)
                   then Reject 3
                   else WriteCells AreaHoldingRegs (wm_Address d) (map RegCell (wm_Values d))
         | _ \<Rightarrow> Reject 3)
      else Reject 1)"

text \<open>The reply: a byte count and the cells, the first four payload bytes echoed, or an exception.\<close>

definition cells_wire :: "u8 \<Rightarrow> cell list \<Rightarrow> bytes" where
  "cells_wire fc cs =
     (if fc = 1 \<or> fc = 2 then pack_bits (map cell_bit cs) else regs_bytes (map cell_reg cs))"

fun reply_wire :: "u8 \<Rightarrow> bytes \<Rightarrow> result \<Rightarrow> bytes" where
  "reply_wire fc p (Cells cs) = fc # of_nat (length (cells_wire fc cs)) # cells_wire fc cs"
| "reply_wire fc p Ack = fc # take 4 p"
| "reply_wire fc p (Exception code) = [fc OR 0x80, code]"

section \<open>Refinement\<close>

text \<open>A handler's outcome implements a command: same reply, and the abstract states agree.\<close>

definition implements ::
  "Heap \<Rightarrow> Store \<Rightarrow> Request \<Rightarrow> command \<Rightarrow> (Heap \<times> bytes) option \<Rightarrow> bool" where
  "implements h s req cmd out \<longleftrightarrow>
     (\<exists>h' A' res. exec_command (abs_store h s) (memory_id req) cmd = (A', res) \<and>
        out = Some (h', reply_wire (FunctionCode req) (Payload req) res) \<and>
        abs_store h' s = A' \<and> backed_store h' s)"

lemma implements_reject:
  "backed_store h s \<Longrightarrow> fc = FunctionCode req \<Longrightarrow>
    implements h s req (Reject code) (Some (h, BuildExceptionPDU fc code))"
  by (simp add: implements_def BuildExceptionPDU_def)

text \<open>The tail of every reading handler: resolve, read, reply.\<close>

lemma implements_read:
  assumes st: "backed_store h s"
    and good: "\<And>m. backed_memory m \<Longrightarrow> defined_run (cell_at m) area (unat addr) (unat n) \<Longrightarrow>
      rop (Some m) = Ok (cells_wire (FunctionCode req)
        (run_of (cell_at m) area (unat addr) (unat n)))"
    and bad: "\<And>m. backed_memory m \<Longrightarrow> \<not> defined_run (cell_at m) area (unat addr) (unat n) \<Longrightarrow>
      \<exists>e. rop (Some m) = Err (e :: mem_error)"
  shows "implements h s req (ReadCells area addr n)
    (case resolveMemory (Some s) req of (mem, ok) \<Rightarrow>
       if \<not> ok then Some (h, BuildExceptionPDU (FunctionCode req) 0x02) else
       (case rop (deref h mem) of
          Panic \<Rightarrow> None
        | Err _ \<Rightarrow> Some (h, BuildExceptionPDU (FunctionCode req) 0x02)
        | Ok buf' \<Rightarrow> Some (h, BuildReadResponsePDU (FunctionCode req) buf')))"
proof (cases "store_data s (memory_id req)")
  case None
  then show ?thesis
    using st by (simp add: implements_def resolve_None BuildExceptionPDU_def abs_store_def memory_of_def)
next
  case (Some r)
  from st have "wf_store h s" by (simp add: backed_store_def)
  then obtain m where m: "memory_of h s (memory_id req) = Some m"
    using Some by (rule wf_storeD)
  with st have bm: "backed_memory m" by (auto simp: backed_store_def)
  have d: "deref h (Some r) = Some m" using Some m by (simp add: deref_memory_of)
  show ?thesis
  proof (cases "defined_run (cell_at m) area (unat addr) (unat n)")
    case True
    with st m good [OF bm] show ?thesis
      by (simp add: implements_def resolve_Some [OF Some] d abs_store_def BuildReadResponsePDU_eq)
  next
    case False
    with st m bad [OF bm] show ?thesis
      by (auto simp: implements_def resolve_Some [OF Some] d abs_store_def BuildExceptionPDU_def)
  qed
qed

text \<open>The tail of every writing handler: resolve, write, acknowledge.\<close>

lemma implements_write:
  assumes st: "backed_store h s"
    and good: "\<And>m. backed_memory m \<Longrightarrow> defined_run (cell_at m) area (unat addr) (length cs) \<Longrightarrow>
      \<exists>m'. wop (Some m) = Ok m' \<and> backed_memory m' \<and>
        cell_at m' = upd_cells (cell_at m) area (unat addr) (length cs) ((!) cs)"
    and bad: "\<And>m. backed_memory m \<Longrightarrow> \<not> defined_run (cell_at m) area (unat addr) (length cs) \<Longrightarrow>
      \<exists>e. wop (Some m) = Err (e :: mem_error)"
    and ack: "ack = FunctionCode req # take 4 (Payload req)"
  shows "implements h s req (WriteCells area addr cs)
    (case resolveMemory (Some s) req of (mem, ok) \<Rightarrow>
       if \<not> ok then Some (h, BuildExceptionPDU (FunctionCode req) 0x02) else
       (case wop (deref h mem) of
          Panic \<Rightarrow> None
        | Err _ \<Rightarrow> Some (h, BuildExceptionPDU (FunctionCode req) 0x02)
        | Ok m' \<Rightarrow> Some (put_through h mem m', ack)))"
proof (cases "store_data s (memory_id req)")
  case None
  then show ?thesis
    using st by (simp add: implements_def resolve_None BuildExceptionPDU_def abs_store_def memory_of_def)
next
  case (Some r)
  from st have wf: "wf_store h s" by (simp add: backed_store_def)
  then obtain m where m: "memory_of h s (memory_id req) = Some m"
    using Some by (rule wf_storeD)
  with st have bm: "backed_memory m" by (auto simp: backed_store_def)
  have d: "deref h (Some r) = Some m" using Some m by (simp add: deref_memory_of)
  have a: "abs_store h s (memory_id req) = Some (cell_at m)" by (simp add: abs_store_def m)
  show ?thesis
  proof (cases "defined_run (cell_at m) area (unat addr) (length cs)")
    case True
    then obtain m' where m': "wop (Some m) = Ok m'" "backed_memory m'"
      "cell_at m' = upd_cells (cell_at m) area (unat addr) (length cs) ((!) cs)"
      using good [OF bm] by blast
    with True backed_store_put [OF st Some m'(2)] abs_store_put [OF wf Some, of m']
    show ?thesis
      by (simp add: implements_def resolve_Some [OF Some] d a ack put_through_def)
  next
    case False
    with st bad [OF bm] show ?thesis
      by (auto simp: implements_def resolve_Some [OF Some] d a BuildExceptionPDU_def)
  qed
qed

subsection \<open>The handlers\<close>

lemma handleReadBits_implements:
  assumes "backed_store h s" and "IsBitArea area" and "FunctionCode req = 1 \<or> FunctionCode req = 2"
  shows "implements h s req (read_command True area (Payload req)) (handleReadBits h (Some s) req area)"
proof (cases "DecodeReadRequest (Payload req)")
  case (Ok d)
  show ?thesis
  proof (cases "rr_Quantity d = 0")
    case True
    with Ok assms(1) show ?thesis
      by (simp add: handleReadBits_def read_command_def implements_reject)
  next
    case False
    have "implements h s req (ReadCells area (rr_Address d) (rr_Quantity d))
      (case resolveMemory (Some s) req of (mem, ok) \<Rightarrow>
       if \<not> ok then Some (h, BuildExceptionPDU (FunctionCode req) 0x02) else
       (case ReadBits (deref h mem) area (rr_Address d) (rr_Quantity d)
               (replicate (bytesForBits (rr_Quantity d)) 0) of
          Panic \<Rightarrow> None
        | Err _ \<Rightarrow> Some (h, BuildExceptionPDU (FunctionCode req) 0x02)
        | Ok buf' \<Rightarrow> Some (h, BuildReadResponsePDU (FunctionCode req) buf')))"
    proof (rule implements_read [OF assms(1)])
      fix m assume m: "backed_memory m"
      show "ReadBits (Some m) area (rr_Address d) (rr_Quantity d)
          (replicate (bytesForBits (rr_Quantity d)) 0)
          = Ok (cells_wire (FunctionCode req)
             (run_of (cell_at m) area (unat (rr_Address d)) (unat (rr_Quantity d))))"
        if "defined_run (cell_at m) area (unat (rr_Address d)) (unat (rr_Quantity d))"
        using that command_read_bits [OF m assms(2)] assms(3)
        by (simp add: defined_run_has_cells cells_wire_def)
      show "\<exists>e. ReadBits (Some m) area (rr_Address d) (rr_Quantity d)
          (replicate (bytesForBits (rr_Quantity d)) 0) = Err e"
        if "\<not> defined_run (cell_at m) area (unat (rr_Address d)) (unat (rr_Quantity d))"
        using that by (intro not_ok_Err ReadBits_no_panic)
          (simp add: ReadBits_is_ok defined_run_has_cells)
    qed
    with Ok False show ?thesis
      unfolding handleReadBits_def read_command_def mb_bytesForBits_eq Let_def by simp
  qed
qed (use assms(1) in \<open>auto simp: handleReadBits_def read_command_def implements_reject
  DecodeReadRequest_def split: if_splits\<close>)

lemma handleReadRegs_implements:
  assumes "backed_store h s" and "IsRegArea area" and "FunctionCode req = 3 \<or> FunctionCode req = 4"
  shows "implements h s req (read_command False area (Payload req)) (handleReadRegs h (Some s) req area)"
proof (cases "DecodeReadRequest (Payload req)")
  case (Ok d)
  have fc: "\<not> (FunctionCode req = 1 \<or> FunctionCode req = 2)" using assms(3) by auto
  have rd: "implements h s req (ReadCells area (rr_Address d) (rr_Quantity d))
      (case resolveMemory (Some s) req of (mem, ok) \<Rightarrow>
       if \<not> ok then Some (h, BuildExceptionPDU (FunctionCode req) 0x02) else
       (case ReadRegs (deref h mem) area (rr_Address d) (rr_Quantity d)
               (replicate (unat (rr_Quantity d) * 2) 0) of
          Panic \<Rightarrow> None
        | Err _ \<Rightarrow> Some (h, BuildExceptionPDU (FunctionCode req) 0x02)
        | Ok buf' \<Rightarrow> Some (h, BuildReadResponsePDU (FunctionCode req) buf')))"
  proof (rule implements_read [OF assms(1)])
    fix m assume "backed_memory m"
    then have m: "wf_memory m" by (simp add: backed_memory_def)
    show "ReadRegs (Some m) area (rr_Address d) (rr_Quantity d)
        (replicate (unat (rr_Quantity d) * 2) 0)
        = Ok (cells_wire (FunctionCode req)
           (run_of (cell_at m) area (unat (rr_Address d)) (unat (rr_Quantity d))))"
      if "defined_run (cell_at m) area (unat (rr_Address d)) (unat (rr_Quantity d))"
      using that command_read_regs [OF m assms(2)] fc
      by (simp add: defined_run_has_cells cells_wire_def)
    show "\<exists>e. ReadRegs (Some m) area (rr_Address d) (rr_Quantity d)
        (replicate (unat (rr_Quantity d) * 2) 0) = Err e"
      if "\<not> defined_run (cell_at m) area (unat (rr_Address d)) (unat (rr_Quantity d))"
      using that by (intro not_ok_Err ReadRegs_no_panic m)
        (simp add: ReadRegs_is_ok [OF m] defined_run_has_cells)
  qed
  show ?thesis
  proof (cases "rr_Quantity d = 0")
    case True
    have "exec_command A mid (ReadCells area (rr_Address d) 0) = exec_command A mid (Reject 2)" for A mid
      by (simp add: defined_run_def split: option.splits)
    then have "implements h s req (ReadCells area (rr_Address d) (rr_Quantity d))
      = implements h s req (Reject 2)"
      unfolding True implements_def by (intro ext) simp
    with rd Ok True show ?thesis
      unfolding handleReadRegs_def read_command_def Let_def by simp
  next
    case False
    with rd Ok show ?thesis
      unfolding handleReadRegs_def read_command_def Let_def by simp
  qed
qed (use assms(1) in \<open>auto simp: handleReadRegs_def read_command_def implements_reject
  DecodeReadRequest_def split: if_splits\<close>)

lemma DecodeWriteSingle_ok: "DecodeWriteSingle p = Ok d \<Longrightarrow>
    p = be16_bytes (ws_Address d) @ be16_bytes (ws_Value d)"
  using four_bytes_payload [of p]
  by (auto simp: DecodeWriteSingle_def read_payload_def split: if_splits)

lemma handleWriteSingleCoil_implements:
  assumes "backed_store h s" and "FunctionCode req = 5"
  shows "implements h s req (command_of 5 (Payload req)) (handleWriteSingleCoil h (Some s) req)"
proof (cases "DecodeWriteSingle (Payload req)")
  case (Ok d)
  have wr: "implements h s req (WriteCells AreaCoils (ws_Address d) [BitCell b])
    (case resolveMemory (Some s) req of (mem, ok) \<Rightarrow>
       if \<not> ok then Some (h, BuildExceptionPDU (FunctionCode req) 0x02) else
       (case WriteBits (deref h mem) AreaCoils (ws_Address d) 1 [src] of
          Panic \<Rightarrow> None
        | Err _ \<Rightarrow> Some (h, BuildExceptionPDU (FunctionCode req) 0x02)
        | Ok m' \<Rightarrow> Some (put_through h mem m',
            BuildWriteSingleResponsePDU (FunctionCode req) (ws_Address d) (ws_Value d))))"
    if "b = bit_at [src] 0" for b src
  proof (rule implements_write [OF assms(1)])
    fix m assume m: "backed_memory m"
    have 1: "bytesForBits 1 \<le> length [src]" by (simp add: bytesForBits_def)
    have 2: "[BitCell b] = map (\<lambda>k. BitCell (bit_at [src] k)) [0..<unat (1 :: u16)]"
      using that by simp
    note op = write_bits_op [OF _ 1 _ 2 m, of AreaCoils "ws_Address d"]
    show "\<exists>m'. WriteBits (Some m) AreaCoils (ws_Address d) 1 [src] = Ok m' \<and> backed_memory m' \<and>
        cell_at m' = upd_cells (cell_at m) AreaCoils (unat (ws_Address d))
          (length [BitCell b]) ((!) [BitCell b])"
      if "defined_run (cell_at m) AreaCoils (unat (ws_Address d)) (length [BitCell b])"
      using op(1) that by simp
    show "\<exists>e. WriteBits (Some m) AreaCoils (ws_Address d) 1 [src] = Err e"
      if "\<not> defined_run (cell_at m) AreaCoils (unat (ws_Address d)) (length [BitCell b])"
      using op(2) that by simp
  qed (use DecodeWriteSingle_ok [OF Ok] in \<open>simp add: BuildWriteSingleResponsePDU_eq\<close>)
  have "bit_at [1 :: u8] 0" "\<not> bit_at [0 :: u8] 0" by (simp_all add: bit_at_def)
  with wr [of True 1] wr [of False 0] Ok assms show ?thesis
    by (simp add: handleWriteSingleCoil_def command_of_def implements_reject)
qed (use assms in \<open>auto simp: handleWriteSingleCoil_def command_of_def implements_reject
  DecodeWriteSingle_def split: if_splits\<close>)

lemma handleWriteSingleReg_implements:
  assumes "backed_store h s" and "FunctionCode req = 6"
  shows "implements h s req (command_of 6 (Payload req)) (handleWriteSingleReg h (Some s) req)"
proof (cases "DecodeWriteSingle (Payload req)")
  case (Ok d)
  have src: "put_be16 (replicate 2 0) 0 v = regs_bytes [v]" for v
    by (simp add: put_be16_def be16_bytes_def numeral_eq_Suc)
  have "implements h s req (WriteCells AreaHoldingRegs (ws_Address d) (map RegCell [ws_Value d]))
    (case resolveMemory (Some s) req of (mem, ok) \<Rightarrow>
       if \<not> ok then Some (h, BuildExceptionPDU (FunctionCode req) 0x02) else
       (case WriteRegs (deref h mem) AreaHoldingRegs (ws_Address d) 1 (regs_bytes [ws_Value d]) of
          Panic \<Rightarrow> None
        | Err _ \<Rightarrow> Some (h, BuildExceptionPDU (FunctionCode req) 0x02)
        | Ok m' \<Rightarrow> Some (put_through h mem m',
            BuildWriteSingleResponsePDU (FunctionCode req) (ws_Address d) (ws_Value d))))"
  proof (rule implements_write [OF assms(1)])
    fix m assume m: "backed_memory m"
    show "defined_run (cell_at m) AreaHoldingRegs (unat (ws_Address d))
        (length (map RegCell [ws_Value d])) \<Longrightarrow>
      \<exists>m'. WriteRegs (Some m) AreaHoldingRegs (ws_Address d) 1 (regs_bytes [ws_Value d]) = Ok m' \<and>
        backed_memory m' \<and> cell_at m' = upd_cells (cell_at m) AreaHoldingRegs
          (unat (ws_Address d)) (length (map RegCell [ws_Value d])) ((!) (map RegCell [ws_Value d]))"
      by (rule write_regs_op(1) [OF _ _ _ m]) simp_all
    show "\<not> defined_run (cell_at m) AreaHoldingRegs (unat (ws_Address d))
        (length (map RegCell [ws_Value d])) \<Longrightarrow>
      \<exists>e. WriteRegs (Some m) AreaHoldingRegs (ws_Address d) 1 (regs_bytes [ws_Value d]) = Err e"
      by (rule write_regs_op(2) [OF _ _ _ m]) simp_all
  qed (use DecodeWriteSingle_ok [OF Ok] in \<open>simp add: BuildWriteSingleResponsePDU_eq\<close>)
  with Ok show ?thesis
    unfolding handleWriteSingleReg_def command_of_def src Let_def by simp
qed (use assms in \<open>auto simp: handleWriteSingleReg_def command_of_def implements_reject
  DecodeWriteSingle_def split: if_splits\<close>)

lemma handleWriteMultipleCoils_implements:
  assumes "backed_store h s" and "FunctionCode req = 15"
  shows "implements h s req (command_of 15 (Payload req)) (handleWriteMultipleCoils h (Some s) req)"
proof (cases "DecodeWriteMultipleBits (Payload req)")
  case (Ok d)
  show ?thesis
  proof (cases "wb_Quantity d = 0")
    case False
    let ?cs = "bit_run (wb_Data d) (unat (wb_Quantity d))"
    have "implements h s req (WriteCells AreaCoils (wb_Address d) ?cs)
      (case resolveMemory (Some s) req of (mem, ok) \<Rightarrow>
         if \<not> ok then Some (h, BuildExceptionPDU (FunctionCode req) 0x02) else
         (case WriteBits (deref h mem) AreaCoils (wb_Address d) (wb_Quantity d) (wb_Data d) of
            Panic \<Rightarrow> None
          | Err _ \<Rightarrow> Some (h, BuildExceptionPDU (FunctionCode req) 0x02)
          | Ok m' \<Rightarrow> Some (put_through h mem m',
              BuildWriteMultipleResponsePDU (FunctionCode req) (wb_Address d) (wb_Quantity d))))"
    proof (rule implements_write [OF assms(1)])
      fix m assume m: "backed_memory m"
      have "bytesForBits (wb_Quantity d) \<le> length (wb_Data d)"
        using Ok by (simp add: DecodeWriteMultipleBits_iff bytesForBits_def)
      note op = write_bits_op [OF _ this False bit_run_def m, of AreaCoils "wb_Address d"]
      show "defined_run (cell_at m) AreaCoils (unat (wb_Address d)) (length ?cs) \<Longrightarrow>
        \<exists>m'. WriteBits (Some m) AreaCoils (wb_Address d) (wb_Quantity d) (wb_Data d) = Ok m' \<and>
          backed_memory m' \<and> cell_at m' = upd_cells (cell_at m) AreaCoils
            (unat (wb_Address d)) (length ?cs) ((!) ?cs)"
        by (rule op(1)) simp
      show "\<not> defined_run (cell_at m) AreaCoils (unat (wb_Address d)) (length ?cs) \<Longrightarrow>
        \<exists>e. WriteBits (Some m) AreaCoils (wb_Address d) (wb_Quantity d) (wb_Data d) = Err e"
        by (rule op(2)) simp
    qed (use Ok in \<open>simp add: BuildWriteMultipleResponsePDU_eq DecodeWriteMultipleBits_iff
      write_payload_def\<close>)
    with Ok False show ?thesis
      unfolding handleWriteMultipleCoils_def command_of_def by simp
  qed (use Ok assms in \<open>simp add: handleWriteMultipleCoils_def command_of_def implements_reject\<close>)
qed (use assms in \<open>auto simp: handleWriteMultipleCoils_def command_of_def implements_reject Let_def
  DecodeWriteMultipleBits_def split: if_splits\<close>)

lemma handleWriteMultipleRegs_implements:
  assumes "backed_store h s" and "FunctionCode req = 16"
  shows "implements h s req (command_of 16 (Payload req)) (handleWriteMultipleRegs h (Some s) req)"
proof (cases "DecodeWriteMultiple (Payload req)")
  case (Ok d)
  show ?thesis
  proof (cases "wm_Quantity d = 0 \<or> unat (wm_Quantity d) \<noteq> length (wm_Values d)")
    case False
    let ?cs = "map RegCell (wm_Values d)"
    have "implements h s req (WriteCells AreaHoldingRegs (wm_Address d) ?cs)
      (case resolveMemory (Some s) req of (mem, ok) \<Rightarrow>
         if \<not> ok then Some (h, BuildExceptionPDU (FunctionCode req) 0x02) else
         (case WriteRegs (deref h mem) AreaHoldingRegs (wm_Address d) (wm_Quantity d)
                (regs_bytes (wm_Values d)) of
            Panic \<Rightarrow> None
          | Err _ \<Rightarrow> Some (h, BuildExceptionPDU (FunctionCode req) 0x02)
          | Ok m' \<Rightarrow> Some (put_through h mem m',
              BuildWriteMultipleResponsePDU (FunctionCode req) (wm_Address d) (wm_Quantity d))))"
    proof (rule implements_write [OF assms(1)])
      fix m assume m: "backed_memory m"
      have q: "unat (wm_Quantity d) = length (wm_Values d)" "wm_Quantity d \<noteq> 0" using False by auto
      show "defined_run (cell_at m) AreaHoldingRegs (unat (wm_Address d)) (length ?cs) \<Longrightarrow>
        \<exists>m'. WriteRegs (Some m) AreaHoldingRegs (wm_Address d) (wm_Quantity d)
            (regs_bytes (wm_Values d)) = Ok m' \<and>
          backed_memory m' \<and> cell_at m' = upd_cells (cell_at m) AreaHoldingRegs
            (unat (wm_Address d)) (length ?cs) ((!) ?cs)"
        by (rule write_regs_op(1) [OF _ q m]) simp
      show "\<not> defined_run (cell_at m) AreaHoldingRegs (unat (wm_Address d)) (length ?cs) \<Longrightarrow>
        \<exists>e. WriteRegs (Some m) AreaHoldingRegs (wm_Address d) (wm_Quantity d)
            (regs_bytes (wm_Values d)) = Err e"
        by (rule write_regs_op(2) [OF _ q m]) simp
    qed (use Ok in \<open>simp add: BuildWriteMultipleResponsePDU_eq DecodeWriteMultiple_iff
      write_payload_def\<close>)
    with Ok False show ?thesis
      unfolding handleWriteMultipleRegs_def command_of_def putValues_full Let_def by simp
  qed (use Ok assms in \<open>auto simp: handleWriteMultipleRegs_def command_of_def implements_reject\<close>)
qed (use assms in \<open>auto simp: handleWriteMultipleRegs_def command_of_def implements_reject Let_def
  DecodeWriteMultiple_def split: if_splits\<close>)

lemma dispatch_implements:
  assumes "backed_store h s"
  shows "implements h s req (command_of (FunctionCode req) (Payload req))
    (DispatchMemory h (Some s) req)"
proof -
  consider "FunctionCode req = 1" | "FunctionCode req = 2" | "FunctionCode req = 3"
    | "FunctionCode req = 4" | "FunctionCode req = 5" | "FunctionCode req = 6"
    | "FunctionCode req = 15" | "FunctionCode req = 16"
    | "FunctionCode req \<notin> {1, 2, 3, 4, 5, 6, 15, 16}" by auto
  then show ?thesis
  proof cases
    case 1 with assms show ?thesis
      by (simp add: DispatchMemory_def command_of_def handleReadBits_implements)
  next
    case 2 with assms show ?thesis
      by (simp add: DispatchMemory_def command_of_def handleReadBits_implements)
  next
    case 3 with assms show ?thesis
      by (simp add: DispatchMemory_def command_of_def handleReadRegs_implements)
  next
    case 4 with assms show ?thesis
      by (simp add: DispatchMemory_def command_of_def handleReadRegs_implements)
  next
    case 5 with assms handleWriteSingleCoil_implements show ?thesis by (simp add: DispatchMemory_def)
  next
    case 6 with assms handleWriteSingleReg_implements show ?thesis by (simp add: DispatchMemory_def)
  next
    case 7 with assms handleWriteMultipleCoils_implements show ?thesis
      by (simp add: DispatchMemory_def)
  next
    case 8 with assms handleWriteMultipleRegs_implements show ?thesis
      by (simp add: DispatchMemory_def)
  next
    case 9 with assms show ?thesis
      by (simp add: DispatchMemory_def command_of_def implements_reject)
  qed
qed

end
