(* ===== verification/StoreFrame.thy ===== *)
theory StoreFrame
  imports MemStore
begin

text \<open>
  The frame condition both protocols establish for a step on the shared store: at most one instance
  changes, and it keeps its areas, its sealing bit and its invariant.
\<close>

section \<open>Confinement\<close>

text \<open>From \<open>h\<close> to \<open>h'\<close> at most the instance of \<open>mid\<close> changed, and that one kept its shape.\<close>

definition touches :: "Heap \<Rightarrow> Store \<Rightarrow> MemoryID \<Rightarrow> Heap \<Rightarrow> bool" where
  "touches h s mid h' \<longleftrightarrow>
     wf_store h' s \<and> (\<forall>j. j \<noteq> mid \<longrightarrow> memory_of h' s j = memory_of h s j) \<and>
     (\<forall>m. memory_of h s mid = Some m \<longrightarrow>
        (\<exists>m'. memory_of h' s mid = Some m' \<and> same_shape m m'))"

lemma touches_refl [simp]: "wf_store h s \<Longrightarrow> touches h s mid h"
  by (simp add: touches_def)

lemma touches_other: "touches h s mid h' \<Longrightarrow> j \<noteq> mid \<Longrightarrow> memory_of h' s j = memory_of h s j"
  by (simp add: touches_def)

lemma touches_wf: "touches h s mid h' \<Longrightarrow> wf_store h' s"
  by (simp add: touches_def)

lemma touches_put:
  assumes "wf_store h s" and "store_data s mid = Some r" and "memory_of h s mid = Some m"
    and "wf_memory m'" and "same_shape m m'"
  shows "touches h s mid (heap_put h r m')"
  using assms by (auto simp: touches_def memory_of_put wf_store_put)

lemma touches_backed:
  assumes "backed_store h s" and "touches h s mid h'"
  shows "backed_store h' s"
proof -
  have "backed_memory m" if m: "memory_of h' s j = Some m" for j m
  proof (cases "j = mid")
    case True
    with m assms(2) have wf: "wf_memory m" by (auto simp: touches_def intro: memory_of_wf)
    from m True obtain r where "store_data s mid = Some r"
      by (auto simp: memory_of_def split: option.splits)
    then obtain m0 where m0: "memory_of h s mid = Some m0"
      using assms(1) by (auto simp: backed_store_def elim: wf_storeD)
    with assms m True have "same_shape m0 m" by (auto simp: touches_def)
    with m0 wf assms(1) show ?thesis
      using backed_same_shape by (auto simp: backed_store_def)
  next
    case False
    with m assms show ?thesis by (auto simp: touches_def backed_store_def)
  qed
  with assms(2) show ?thesis by (simp add: backed_store_def touches_def)
qed

text \<open>Writing bits keeps the invariant and the shape even when the area has no backing bytes.\<close>

lemma WriteBits_keeps:
  assumes "wf_memory m" and "WriteBits (Some m) area address count src = Ok m'"
  shows "wf_memory m'" and "same_shape m m'"
proof -
  from assms(2) obtain l bs where b: "bitBacking m area = Some (Some l, bs)"
    and m': "m' = storeBits m area
       (writeBits bs (Offset l address) count (take (bytesForBits count) src))"
    by (rule WriteBits_ok_cases)
  show "wf_memory m'" unfolding m' by (rule wf_storeBits [OF assms(1) b]) simp
  show "same_shape m m'" by (simp add: m')
qed

end
