(* ===== verification/ModbusSafety.thy ===== *)
theory ModbusSafety
  imports ModbusSpec StoreFrame
begin

text \<open>
  What the dispatcher promises on every store the builder can produce, including stores with bit
  areas that have no backing bytes: it never panics, it touches the addressed instance only, and it
  touches it only in a write it acknowledges.
\<close>

section \<open>The dispatcher\<close>

definition writing_codes :: "u8 set" where
  "writing_codes = {5, 6, 15, 16}"

definition safe_outcome :: "Heap \<Rightarrow> Store \<Rightarrow> Request \<Rightarrow> (Heap \<times> bytes) option \<Rightarrow> bool" where
  "safe_outcome h s req out \<longleftrightarrow>
     (\<exists>h' pdu. out = Some (h', pdu) \<and> pdu \<noteq> [] \<and> touches h s (memory_id req) h' \<and>
        (h' = h \<or> FunctionCode req \<in> writing_codes \<and> pdu = FunctionCode req # take 4 (Payload req)))"

lemma safe_exception: "wf_store h s \<Longrightarrow> safe_outcome h s req (Some (h, BuildExceptionPDU fc code))"
  by (simp add: safe_outcome_def BuildExceptionPDU_def)

lemma safe_read:
  assumes "wf_store h s"
    and rop: "\<And>m. wf_memory m \<Longrightarrow> no_panic (rop (Some m))"
  shows "safe_outcome h s req
    (case resolveMemory (Some s) req of (mem, ok) \<Rightarrow>
       if \<not> ok then Some (h, BuildExceptionPDU (FunctionCode req) 0x02) else
       (case rop (deref h mem) of
          Panic \<Rightarrow> None
        | Err (_ :: mem_error) \<Rightarrow> Some (h, BuildExceptionPDU (FunctionCode req) 0x02)
        | Ok buf' \<Rightarrow> Some (h, BuildReadResponsePDU (FunctionCode req) buf')))"
proof (cases "store_data s (memory_id req)")
  case None
  then show ?thesis using assms(1) by (simp add: resolve_None safe_exception)
next
  case (Some r)
  then obtain m where m: "instances h r = Some m" "wf_memory m"
    using assms(1) by (blast elim: wf_storeD)
  with rop [of m] assms(1) show ?thesis
    by (cases "rop (Some m)")
       (simp_all add: resolve_Some [OF Some] deref_def safe_exception safe_outcome_def
          BuildReadResponsePDU_eq BuildExceptionPDU_def)
qed

lemma safe_write:
  assumes "wf_store h s" and "FunctionCode req \<in> writing_codes"
    and wop: "\<And>m. wf_memory m \<Longrightarrow> no_panic (wop (Some m))"
    and keep: "\<And>m m'. wf_memory m \<Longrightarrow> wop (Some m) = Ok m' \<Longrightarrow> wf_memory m' \<and> same_shape m m'"
    and ack: "ack = FunctionCode req # take 4 (Payload req)"
  shows "safe_outcome h s req
    (case resolveMemory (Some s) req of (mem, ok) \<Rightarrow>
       if \<not> ok then Some (h, BuildExceptionPDU (FunctionCode req) 0x02) else
       (case wop (deref h mem) of
          Panic \<Rightarrow> None
        | Err (_ :: mem_error) \<Rightarrow> Some (h, BuildExceptionPDU (FunctionCode req) 0x02)
        | Ok m' \<Rightarrow> Some (put_through h mem m', ack)))"
proof (cases "store_data s (memory_id req)")
  case None
  then show ?thesis using assms(1) by (simp add: resolve_None safe_exception)
next
  case (Some r)
  then obtain m where m: "instances h r = Some m" "wf_memory m" "memory_of h s (memory_id req) = Some m"
    using assms(1) by (blast elim: wf_storeD)
  show ?thesis
  proof (cases "wop (Some m)")
    case (Ok m')
    with keep [OF m(2)] touches_put [OF assms(1) Some m(3), of m'] m(1) assms(2) show ?thesis
      by (auto simp: resolve_Some [OF Some] deref_def safe_outcome_def put_through_def ack)
  qed (use wop [OF m(2)] m(1) assms(1) in
        \<open>simp_all add: resolve_Some [OF Some] deref_def safe_exception\<close>)
qed

lemma decode_no_panic [simp]:
  "DecodeReadRequest p \<noteq> Panic" "DecodeWriteSingle p \<noteq> Panic"
  "DecodeWriteMultiple p \<noteq> Panic" "DecodeWriteMultipleBits p \<noteq> Panic"
  by (simp_all add: DecodeReadRequest_def DecodeWriteSingle_def DecodeWriteMultiple_def
      DecodeWriteMultipleBits_def Let_def)

lemma handleReadBits_safe:
  assumes "wf_store h s"
  shows "safe_outcome h s req (handleReadBits h (Some s) req area)"
proof (cases "DecodeReadRequest (Payload req)")
  case (Ok d)
  from safe_read [OF assms, of "\<lambda>mo. ReadBits mo area (rr_Address d) (rr_Quantity d)
      (replicate (mb_bytesForBits (rr_Quantity d)) 0)" req]
  show ?thesis
    unfolding handleReadBits_def Let_def by (simp add: Ok ReadBits_no_panic safe_exception [OF assms])
qed (use safe_exception [OF assms] in \<open>simp_all add: handleReadBits_def\<close>)

lemma handleReadRegs_safe:
  assumes "wf_store h s"
  shows "safe_outcome h s req (handleReadRegs h (Some s) req area)"
proof (cases "DecodeReadRequest (Payload req)")
  case (Ok d)
  from safe_read [OF assms, of "\<lambda>mo. ReadRegs mo area (rr_Address d) (rr_Quantity d)
      (replicate (unat (rr_Quantity d) * 2) 0)" req]
  show ?thesis
    unfolding handleReadRegs_def Let_def by (simp add: Ok ReadRegs_no_panic)
qed (use safe_exception [OF assms] in \<open>simp_all add: handleReadRegs_def\<close>)

lemma handleWriteSingleCoil_safe:
  assumes "wf_store h s" and "FunctionCode req = 5"
  shows "safe_outcome h s req (handleWriteSingleCoil h (Some s) req)"
proof (cases "DecodeWriteSingle (Payload req)")
  case (Ok d)
  have "safe_outcome h s req
    (case resolveMemory (Some s) req of (mem, ok) \<Rightarrow>
       if \<not> ok then Some (h, BuildExceptionPDU (FunctionCode req) 0x02) else
       (case WriteBits (deref h mem) AreaCoils (ws_Address d) 1 [src] of
          Panic \<Rightarrow> None
        | Err _ \<Rightarrow> Some (h, BuildExceptionPDU (FunctionCode req) 0x02)
        | Ok m' \<Rightarrow> Some (put_through h mem m',
            BuildWriteSingleResponsePDU (FunctionCode req) (ws_Address d) (ws_Value d))))" for src
    using DecodeWriteSingle_ok [OF Ok] assms WriteBits_keeps
    by (intro safe_write)
       (auto simp: writing_codes_def WriteBits_no_panic BuildWriteSingleResponsePDU_eq)
  then show ?thesis
    unfolding handleWriteSingleCoil_def by (simp add: Ok safe_exception [OF assms(1)])
qed (use safe_exception [OF assms(1)] in \<open>simp_all add: handleWriteSingleCoil_def\<close>)

lemma handleWriteSingleReg_safe:
  assumes "wf_store h s" and "FunctionCode req = 6"
  shows "safe_outcome h s req (handleWriteSingleReg h (Some s) req)"
proof (cases "DecodeWriteSingle (Payload req)")
  case (Ok d)
  have "safe_outcome h s req
    (case resolveMemory (Some s) req of (mem, ok) \<Rightarrow>
       if \<not> ok then Some (h, BuildExceptionPDU (FunctionCode req) 0x02) else
       (case WriteRegs (deref h mem) AreaHoldingRegs (ws_Address d) 1 src of
          Panic \<Rightarrow> None
        | Err _ \<Rightarrow> Some (h, BuildExceptionPDU (FunctionCode req) 0x02)
        | Ok m' \<Rightarrow> Some (put_through h mem m',
            BuildWriteSingleResponsePDU (FunctionCode req) (ws_Address d) (ws_Value d))))" for src
    using DecodeWriteSingle_ok [OF Ok] assms WriteRegs_effect
    by (intro safe_write)
       (auto simp: writing_codes_def WriteRegs_no_panic BuildWriteSingleResponsePDU_eq)
  then show ?thesis
    unfolding handleWriteSingleReg_def Let_def by (simp add: Ok)
qed (use safe_exception [OF assms(1)] in \<open>simp_all add: handleWriteSingleReg_def\<close>)

lemma handleWriteMultipleCoils_safe:
  assumes "wf_store h s" and "FunctionCode req = 15"
  shows "safe_outcome h s req (handleWriteMultipleCoils h (Some s) req)"
proof (cases "DecodeWriteMultipleBits (Payload req)")
  case (Ok d)
  have "safe_outcome h s req
    (case resolveMemory (Some s) req of (mem, ok) \<Rightarrow>
       if \<not> ok then Some (h, BuildExceptionPDU (FunctionCode req) 0x02) else
       (case WriteBits (deref h mem) AreaCoils (wb_Address d) (wb_Quantity d) (wb_Data d) of
          Panic \<Rightarrow> None
        | Err _ \<Rightarrow> Some (h, BuildExceptionPDU (FunctionCode req) 0x02)
        | Ok m' \<Rightarrow> Some (put_through h mem m',
            BuildWriteMultipleResponsePDU (FunctionCode req) (wb_Address d) (wb_Quantity d))))"
    using Ok assms WriteBits_keeps
    by (intro safe_write)
       (auto simp: writing_codes_def WriteBits_no_panic BuildWriteMultipleResponsePDU_eq
         DecodeWriteMultipleBits_iff write_payload_def)
  then show ?thesis
    unfolding handleWriteMultipleCoils_def by (simp add: Ok safe_exception [OF assms(1)])
qed (use safe_exception [OF assms(1)] in \<open>simp_all add: handleWriteMultipleCoils_def\<close>)

lemma handleWriteMultipleRegs_safe:
  assumes "wf_store h s" and "FunctionCode req = 16"
  shows "safe_outcome h s req (handleWriteMultipleRegs h (Some s) req)"
proof (cases "DecodeWriteMultiple (Payload req)")
  case (Ok d)
  have "safe_outcome h s req
    (case resolveMemory (Some s) req of (mem, ok) \<Rightarrow>
       if \<not> ok then Some (h, BuildExceptionPDU (FunctionCode req) 0x02) else
       (case WriteRegs (deref h mem) AreaHoldingRegs (wm_Address d) (wm_Quantity d) src of
          Panic \<Rightarrow> None
        | Err _ \<Rightarrow> Some (h, BuildExceptionPDU (FunctionCode req) 0x02)
        | Ok m' \<Rightarrow> Some (put_through h mem m',
            BuildWriteMultipleResponsePDU (FunctionCode req) (wm_Address d) (wm_Quantity d))))" for src
    using Ok assms WriteRegs_effect
    by (intro safe_write)
       (auto simp: writing_codes_def WriteRegs_no_panic BuildWriteMultipleResponsePDU_eq
         DecodeWriteMultiple_iff write_payload_def)
  then show ?thesis
    unfolding handleWriteMultipleRegs_def Let_def by (simp add: Ok safe_exception [OF assms(1)])
qed (use safe_exception [OF assms(1)] in \<open>simp_all add: handleWriteMultipleRegs_def\<close>)

lemma dispatch_safe:
  assumes "wf_store h s"
  shows "safe_outcome h s req (DispatchMemory h (Some s) req)"
  using assms
  by (simp add: DispatchMemory_def handleReadBits_safe handleReadRegs_safe handleWriteSingleCoil_safe
      handleWriteSingleReg_safe handleWriteMultipleCoils_safe handleWriteMultipleRegs_safe
      safe_exception)

lemma dispatch_cases:
  assumes "wf_store h s"
  obtains h' pdu where "DispatchMemory h (Some s) req = Some (h', pdu)" "pdu \<noteq> []"
    "touches h s (memory_id req) h'"
    "h' \<noteq> h \<Longrightarrow> FunctionCode req \<in> writing_codes"
    "h' \<noteq> h \<Longrightarrow> pdu = FunctionCode req # take 4 (Payload req)"
  using dispatch_safe [OF assms, of req] unfolding safe_outcome_def by blast

end
