(* ===== verification/ModbusConn.thy ===== *)
theory ModbusConn
  imports ModbusSafety AuthorityLaws
begin

text \<open>
  internal/transport/modbus/handle_conn.go: the loop that serves one Modbus connection. Every
  request passes the state-sealing check and the access rules before it reaches the dispatcher.
\<close>

section \<open>One request\<close>

text \<open>
  The sealing check on a resolved instance: no sealing bit configured means open, a failing read of
  the bit or a zero bit means sealed.
\<close>

definition sealed_now :: "Memory option \<Rightarrow> (mem_error, bool) outcome" where
  "sealed_now mem =
     (case StateSealing mem of
        Err e \<Rightarrow> Err e
      | Panic \<Rightarrow> Panic
      | Ok None \<Rightarrow> Ok False
      | Ok (Some seal) \<Rightarrow>
          (case ReadBits mem (seal_Area seal) (seal_Address seal) 1 [0] of
             Err _ \<Rightarrow> Ok True
           | Panic \<Rightarrow> Panic
           | Ok buf \<Rightarrow> if buf = [] then Panic else Ok (buf ! 0 AND 0x01 = 0)))"

definition seal_check :: "Heap \<Rightarrow> Store option \<Rightarrow> MemoryID \<Rightarrow> (mem_error, bool) outcome" where
  "seal_check h store mid =
     (case Get store mid of (mem, ok) \<Rightarrow> if ok then sealed_now (deref h mem) else Ok False)"

text \<open>
  The body of the loop after \<open>ReadRequest\<close>: a refusal (the result of writing it is ignored) or a
  served reply (a failing write ends the connection).
\<close>

datatype reply = Refused bytes | Served bytes

definition serve ::
  "Heap \<Rightarrow> Store option \<Rightarrow> Authority \<Rightarrow> Addr \<Rightarrow> Request \<Rightarrow> (Heap \<times> reply) option" where
  "serve h store auth srcIP req =
     (let mid = \<lparr>Port = mb_Port req, UnitID = ucast (mb_UnitID req)\<rparr> in
      case seal_check h store mid of
        Panic \<Rightarrow> None
      | Err _ \<Rightarrow> None
      | Ok True \<Rightarrow> Some (h, Refused (BuildExceptionPDU (FunctionCode req) 0x06))
      | Ok False \<Rightarrow>
          (let decision = Evaluate auth \<lparr>req_MemoryID = mid, req_SourceIP = srcIP,
                            req_FunctionCode = FunctionCode req\<rparr> in
           if \<not> Allowed decision then
             Some (h, Refused (BuildExceptionPDU (FunctionCode req) (ExceptionCode decision)))
           else
             (case DispatchMemory h store req of
                None \<Rightarrow> None
              | Some (h', pdu) \<Rightarrow> Some (h', Served pdu))))"

section \<open>The connection\<close>

function modbus_loop ::
  "Store option \<Rightarrow> Authority \<Rightarrow> u16 \<Rightarrow> Addr \<Rightarrow> Heap \<Rightarrow> Conn \<Rightarrow> (Heap \<times> Conn) option" where
  "modbus_loop store auth port srcIP h conn =
     (case ReadRequest port (incoming conn) of
        (Err _, r) \<Rightarrow> Some (h, conn\<lparr>incoming := r\<rparr>)
      | (Panic, r) \<Rightarrow> None
      | (Ok req, r) \<Rightarrow>
          (case serve h store auth srcIP req of
             None \<Rightarrow> None
           | Some (h', Refused pdu) \<Rightarrow>
               modbus_loop store auth port srcIP h'
                 (snd (conn_write (conn\<lparr>incoming := r\<rparr>) (BuildResponse req pdu)))
           | Some (h', Served pdu) \<Rightarrow>
               if pdu = [] then Some (h', conn\<lparr>incoming := r\<rparr>)
               else if fst (conn_write (conn\<lparr>incoming := r\<rparr>) (BuildResponse req pdu)) then
                 modbus_loop store auth port srcIP h'
                   (snd (conn_write (conn\<lparr>incoming := r\<rparr>) (BuildResponse req pdu)))
               else Some (h', snd (conn_write (conn\<lparr>incoming := r\<rparr>) (BuildResponse req pdu)))))"
  by pat_completeness auto
termination
  by (relation "measure (\<lambda>(store, auth, port, srcIP, h, conn). length (pending (incoming conn)))")
     (auto dest!: modbus_frames.decode_shrinks [OF sym])

declare modbus_loop.simps [simp del]

definition mb_HandleConn ::
  "Heap \<Rightarrow> Store option \<Rightarrow> Authority \<Rightarrow> Conn \<Rightarrow> (Heap \<times> Conn) option" where
  "mb_HandleConn h store auth conn =
     (case local_port conn of
        None \<Rightarrow> Some (h, conn_close conn)
      | Some lp \<Rightarrow>
          let port = (of_nat lp :: u16) in
          (case remote_ip conn of
             None \<Rightarrow> Some (h, conn_close conn)
           | Some ip \<Rightarrow>
               (case ParseAddr ip of
                  None \<Rightarrow> Some (h, conn_close conn)
                | Some srcIP \<Rightarrow>
                    (case modbus_loop store auth port srcIP h conn of
                       None \<Rightarrow> None
                     | Some (h', conn') \<Rightarrow> Some (h', conn_close conn')))))"

section \<open>What the sealing check decides\<close>

text \<open>
  An instance is sealed when it has a sealing bit that is not a set bit cell: cleared, outside its
  area, or in an area that is not configured.
\<close>

definition is_sealed :: "Memory \<Rightarrow> bool" where
  "is_sealed m \<longleftrightarrow>
     (case stateSealing m of None \<Rightarrow> False
      | Some d \<Rightarrow> cell_at m (seal_Area d) (unat (seal_Address d)) \<noteq> Some (BitCell True))"

lemma bit_cell_area: "cell_at m area a = Some (BitCell b) \<Longrightarrow> IsBitArea area"
  using bitBacking_None_iff [of m area]
  by (auto simp: cell_at_def split: option.splits if_splits)

text \<open>Reading one bit, also from an area without backing bytes.\<close>

lemma ReadBits_one:
  assumes "wf_memory m" and "ReadBits (Some m) area address 1 [0] = Ok d"
  shows "length d = 1" and "cell_at m area (unat address) = Some (BitCell (bit_at d 0))"
proof -
  from assms(2) obtain l bs where b: "bitBacking m area = Some (Some l, bs)"
    and c: "Contains l address 1"
    and d: "d = copyBits (take (bytesForBits 1) [0]) bs (Offset l address) 1
         @ drop (bytesForBits 1) [0]"
    by (rule ReadBits_ok_cases)
  have one: "bytesForBits 1 = 1" by (simp add: bytesForBits_def)
  have d': "d = copyBits [0] bs (Offset l address) 1" by (simp add: d one)
  then show "length d = 1" by simp
  have w: "in_window l (unat address)" using Contains_in_window [OF c, of 0] by simp
  from assms(1) b have wf: "wf_bits (Some l) bs" by (rule wf_bitBacking)
  show "cell_at m area (unat address) = Some (BitCell (bit_at d 0))"
  proof (cases "unat (Size l) < 65529")
    case True
    with wf have "unat (Size l) \<le> 8 * length bs"
      by (simp add: wf_bits_def bytesForBits_covers)
    moreover have "unat (Offset l address) \<le> 65535"
      using u16_bound [of "Offset l address"] by linarith
    ultimately have "bit_at d 0 = bit_at bs (unat (Offset l address))"
      using Offset_off [OF c] unfolding d' by (subst copyBits_bits) auto
    with w Offset_off [OF c] show ?thesis by (simp add: cell_at_bits [OF b])
  next
    case False
    with wf have "bs = []" by (simp add: wf_bits_def bytesForBits_large)
    with w show ?thesis by (simp add: cell_at_bits [OF b] d' bit_at_def)
  qed
qed

lemma bit_at_byte0: "length d = 1 \<Longrightarrow> bit_at d 0 \<longleftrightarrow> d ! 0 AND 1 \<noteq> 0"
  by (simp add: bit_at_def and_one_eq bit_0 odd_iff_mod_2_eq_one)

lemma sealed_now_eq: "wf_memory m \<Longrightarrow> sealed_now (Some m) = Ok (is_sealed m)"
proof (cases "stateSealing m")
  case (Some sd)
  assume wf: "wf_memory m"
  let ?r = "ReadBits (Some m) (seal_Area sd) (seal_Address sd) 1 [0]"
  show ?thesis
  proof (cases ?r)
    case (Ok d)
    from ReadBits_one [OF wf Ok] bit_at_byte0 [of d] Ok Some show ?thesis
      by (auto simp: sealed_now_def StateSealing_def is_sealed_def)
  next
    case (Err e)
    have "cell_at m (seal_Area sd) (unat (seal_Address sd)) \<noteq> Some (BitCell True)"
    proof
      assume c: "cell_at m (seal_Area sd) (unat (seal_Address sd)) = Some (BitCell True)"
      then have "has_cells m (seal_Area sd) (seal_Address sd) 1" by (simp add: has_cells_def)
      with c have "is_ok ?r" by (simp add: ReadBits_is_ok bit_cell_area bytesForBits_def)
      with Err show False by simp
    qed
    with Err Some show ?thesis by (simp add: sealed_now_def StateSealing_def is_sealed_def)
  next
    case Panic
    with ReadBits_no_panic [of "Some m" "seal_Area sd" "seal_Address sd" 1 "[0]"]
    show ?thesis by simp
  qed
qed (simp add: sealed_now_def StateSealing_def is_sealed_def)

lemma seal_check_eq:
  assumes "wf_store h s"
  shows "seal_check h (Some s) mid
    = Ok (case memory_of h s mid of None \<Rightarrow> False | Some m \<Rightarrow> is_sealed m)"
proof (cases "store_data s mid")
  case None
  then show ?thesis by (simp add: seal_check_def Get_def memory_of_def)
next
  case (Some r)
  then obtain m where "instances h r = Some m" "wf_memory m" "memory_of h s mid = Some m"
    using assms by (blast elim: wf_storeD)
  with Some show ?thesis by (simp add: seal_check_def Get_def deref_def sealed_now_eq)
qed

section \<open>What one request does\<close>

definition auth_request :: "Request \<Rightarrow> Addr \<Rightarrow> AuthRequest" where
  "auth_request req srcIP = \<lparr>req_MemoryID = memory_id req, req_SourceIP = srcIP,
     req_FunctionCode = FunctionCode req\<rparr>"

text \<open>The request reaches the dispatcher.\<close>

definition admitted :: "Heap \<Rightarrow> Store \<Rightarrow> Authority \<Rightarrow> Addr \<Rightarrow> Request \<Rightarrow> bool" where
  "admitted h s auth srcIP req \<longleftrightarrow>
     (case memory_of h s (memory_id req) of None \<Rightarrow> True | Some m \<Rightarrow> \<not> is_sealed m) \<and>
     Allowed (Evaluate auth (auth_request req srcIP))"

definition refusal :: "Heap \<Rightarrow> Store \<Rightarrow> Authority \<Rightarrow> Addr \<Rightarrow> Request \<Rightarrow> bytes" where
  "refusal h s auth srcIP req =
     BuildExceptionPDU (FunctionCode req)
       (if (case memory_of h s (memory_id req) of None \<Rightarrow> False | Some m \<Rightarrow> is_sealed m) then 6
        else ExceptionCode (Evaluate auth (auth_request req srcIP)))"

lemma serve_eq:
  assumes "wf_store h s"
  shows "serve h (Some s) auth srcIP req =
    (if admitted h s auth srcIP req
     then map_option (\<lambda>(h', pdu). (h', Served pdu)) (DispatchMemory h (Some s) req)
     else Some (h, Refused (refusal h s auth srcIP req)))"
  by (auto simp: serve_def Let_def admitted_def refusal_def seal_check_eq [OF assms]
      auth_request_def memory_id_def split: option.splits)

lemma serve_cases:
  assumes "wf_store h s"
  obtains (refused) "\<not> admitted h s auth srcIP req"
      "serve h (Some s) auth srcIP req = Some (h, Refused (refusal h s auth srcIP req))"
  | (served) h' pdu where "admitted h s auth srcIP req"
      "DispatchMemory h (Some s) req = Some (h', pdu)"
      "serve h (Some s) auth srcIP req = Some (h', Served pdu)" "pdu \<noteq> []"
      "touches h s (memory_id req) h'"
      "h' \<noteq> h \<Longrightarrow> FunctionCode req \<in> writing_codes"
proof (cases "admitted h s auth srcIP req")
  case True
  obtain h' pdu where "DispatchMemory h (Some s) req = Some (h', pdu)" "pdu \<noteq> []"
    "touches h s (memory_id req) h'" "h' \<noteq> h \<Longrightarrow> FunctionCode req \<in> writing_codes"
    by (rule dispatch_cases [OF assms, of req]) (rule that)
  with True served show thesis by (simp add: serve_eq [OF assms])
next
  case False
  with refused show thesis by (simp add: serve_eq [OF assms])
qed

text \<open>A request leaves alone whatever it does not address, is not admitted to, or does not write.\<close>

lemma serve_keeps:
  assumes "wf_store h s" and "serve h (Some s) auth srcIP req = Some (h', r)"
  shows "touches h s (memory_id req) h'"
    and "\<not> admitted h s auth srcIP req \<or> FunctionCode req \<notin> writing_codes \<Longrightarrow> h' = h"
  using serve_cases [OF assms(1), of auth srcIP req] assms by fastforce+

section \<open>The whole connection\<close>

text \<open>
  An invariant of the served requests is an invariant of the connection, which always returns:
  each request consumes input and none of them panics.
\<close>

lemma modbus_loop_invariant:
  assumes "wf_store h s" and "P h"
    and "\<And>h h' q r. wf_store h s \<Longrightarrow> P h \<Longrightarrow> mb_Port q = port \<Longrightarrow>
      serve h (Some s) auth srcIP q = Some (h', r) \<Longrightarrow> P h'"
  shows "\<exists>h' conn'. modbus_loop (Some s) auth port srcIP h conn = Some (h', conn') \<and>
    wf_store h' s \<and> P h'"
  using assms(1,2)
proof (induction "length (pending (incoming conn))" arbitrary: h conn rule: less_induct)
  case less
  note loop = modbus_loop.simps [of "Some s" auth port srcIP h conn]
  obtain o' r where rd: "ReadRequest port (incoming conn) = (o', r)" by fastforce
  show ?case
  proof (cases o')
    case (Ok req)
    with rd have rd: "ReadRequest port (incoming conn) = (Ok req, r)" by simp
    let ?sends = "\<lambda>pdu. conn_write (conn\<lparr>incoming := r\<rparr>) (BuildResponse req pdu)"
    from modbus_frames.decode_shrinks [OF rd]
    have shrink: "length (pending (incoming (snd (?sends pdu)))) < length (pending (incoming conn))"
      for pdu by simp
    from modbus_frames.decode_sound [OF rd] have port: "mb_Port req = port"
      by (simp add: request_valid_def)
    show ?thesis
    proof (rule serve_cases [OF less.prems(1), of auth srcIP req])
      assume r: "serve h (Some s) auth srcIP req = Some (h, Refused (refusal h s auth srcIP req))"
      with less.hyps [OF shrink less.prems] show ?thesis by (simp add: loop rd)
    next
      fix h' pdu
      assume v: "serve h (Some s) auth srcIP req = Some (h', Served pdu)" "pdu \<noteq> []"
        and t: "touches h s (memory_id req) h'"
      from t have wf: "wf_store h' s" by (rule touches_wf)
      have P: "P h'" by (rule assms(3) [OF less.prems port v(1)])
      with less.hyps [OF shrink wf P] wf v show ?thesis by (simp add: loop rd)
    qed
  qed (use rd less.prems ReadRequest_not_panic [of port "incoming conn"] in
        \<open>simp_all add: loop\<close>)
qed

lemma HandleConn_invariant:
  assumes "wf_store h s" and "P h"
    and step: "\<And>h h' q r port srcIP. wf_store h s \<Longrightarrow> P h \<Longrightarrow> local_port conn = Some port \<Longrightarrow>
      map_option ParseAddr (remote_ip conn) = Some (Some srcIP) \<Longrightarrow>
      mb_Port q = of_nat port \<Longrightarrow> serve h (Some s) auth srcIP q = Some (h', r) \<Longrightarrow> P h'"
  shows "\<exists>h' conn'. mb_HandleConn h (Some s) auth conn = Some (h', conn') \<and> closed conn' \<and>
    wf_store h' s \<and> P h'"
proof -
  have "\<exists>h' conn'. modbus_loop (Some s) auth (of_nat port) srcIP h conn = Some (h', conn') \<and>
    wf_store h' s \<and> P h'"
    if "local_port conn = Some port" and "remote_ip conn = Some ip" and "ParseAddr ip = Some srcIP"
    for port ip srcIP
    using that step by (intro modbus_loop_invariant assms(1,2)) auto
  then show ?thesis
    using assms(1,2)
    by (fastforce simp: mb_HandleConn_def conn_close_def Let_def split: option.splits)
qed

section \<open>Replies\<close>

text \<open>The request-level run a connection amounts to when every write succeeds.\<close>

fun reply_pdu :: "reply \<Rightarrow> bytes" where
  "reply_pdu (Refused pdu) = pdu"
| "reply_pdu (Served pdu) = pdu"

fun serve_all ::
  "Heap \<Rightarrow> Store option \<Rightarrow> Authority \<Rightarrow> Addr \<Rightarrow> Request list \<Rightarrow> (Heap \<times> bytes list) option" where
  "serve_all h store auth srcIP [] = Some (h, [])"
| "serve_all h store auth srcIP (q # qs) =
     (case serve h store auth srcIP q of
        None \<Rightarrow> None
      | Some (h', r) \<Rightarrow>
          map_option (\<lambda>(h'', frames). (h'', BuildResponse q (reply_pdu r) # frames))
            (serve_all h' store auth srcIP qs))"

lemma modbus_loop_frames:
  assumes "wf_store h s" and "writable conn" and "\<forall>q \<in> set qs. request_valid port q"
    and "incoming conn = \<lparr>pending = concat (map request_wire qs), final = x\<rparr>"
  shows "\<exists>h' frames. serve_all h (Some s) auth srcIP qs = Some (h', frames) \<and>
    length frames = length qs \<and>
    modbus_loop (Some s) auth port srcIP h conn = Some (h', conn
      \<lparr>incoming := \<lparr>pending = [], final = x\<rparr>, sent := sent conn @ frames,
       write_fate := drop (length qs) (write_fate conn)\<rparr>)"
  using assms
proof (induction qs arbitrary: h conn)
  case Nil
  then have "ReadRequest port (incoming conn) = (Err (IOError x), \<lparr>pending = [], final = x\<rparr>)"
    by (simp add: ReadRequest_def ReadFull_def)
  then show ?case by (simp add: modbus_loop.simps)
next
  case (Cons q qs)
  note loop = modbus_loop.simps [of "Some s" auth port srcIP h conn]
  let ?r = "\<lparr>pending = concat (map request_wire qs), final = x\<rparr>"
  have rd: "ReadRequest port (incoming conn) = (Ok q, ?r)"
    using Cons.prems modbus_frames.decode_wire [of port q "concat (map request_wire qs)" x] by simp
  let ?sends = "\<lambda>pdu. conn_write (conn\<lparr>incoming := ?r\<rparr>) (BuildResponse q pdu)"
  have w: "writable (conn\<lparr>incoming := ?r\<rparr>)" using Cons.prems by (simp add: writable_def)
  have wr: "fst (?sends pdu)" "writable (snd (?sends pdu))"
    "snd (?sends pdu) = conn\<lparr>incoming := ?r, sent := sent conn @ [BuildResponse q pdu],
       write_fate := drop 1 (write_fate conn)\<rparr>" for pdu
    using writable_write [OF w] w
    by (auto simp: conn_write_def writable_def split: list.splits option.splits)
  have step: "\<exists>h'' frames. serve_all h' (Some s) auth srcIP qs = Some (h'', frames) \<and>
    length frames = length qs \<and>
    modbus_loop (Some s) auth port srcIP h' (snd (?sends pdu)) = Some (h'', conn
      \<lparr>incoming := \<lparr>pending = [], final = x\<rparr>, sent := sent conn @ BuildResponse q pdu # frames,
       write_fate := drop (length (q # qs)) (write_fate conn)\<rparr>)"
    if "wf_store h' s" for h' pdu
    using Cons.IH [OF that wr(2)] Cons.prems(3) unfolding wr(3) by fastforce
  show ?case
  proof (rule serve_cases [OF Cons.prems(1), of auth srcIP q])
    assume "serve h (Some s) auth srcIP q = Some (h, Refused (refusal h s auth srcIP q))"
    with step [OF Cons.prems(1), of "refusal h s auth srcIP q"] show ?thesis
      by (auto simp: loop rd)
  next
    fix h' pdu
    assume "serve h (Some s) auth srcIP q = Some (h', Served pdu)" "pdu \<noteq> []"
      and t: "touches h s (memory_id q) h'"
    with step [OF touches_wf [OF t], of pdu] wr(1) [of pdu] show ?thesis
      by (auto simp: loop rd)
  qed
qed

end
