(* ===== verification/RawIngest.thy ===== *)
theory RawIngest
  imports GoIo StoreFrame Appliance
begin

text \<open>
  internal/transport/rawingest (packet.go, decoder.go, handle_conn.go): a write-only protocol with
  one status byte per packet. It checks neither the sealing bit nor the access rules.
\<close>

section \<open>Packets (packet.go)\<close>

record Packet =
  pk_Port :: u16
  pk_UnitID :: u16
  pk_Area :: Area
  pk_Address :: u16
  pk_Count :: u16
  pk_Payload :: bytes

definition Magic0 :: u8 where "Magic0 = 0x52"
definition Magic1 :: u8 where "Magic1 = 0x49"
definition Version1 :: u8 where "Version1 = 0x01"
definition RespOK :: u8 where "RespOK = 0"
definition RespRejected :: u8 where "RespRejected = 1"

datatype raw_error =
    RawIO io_error | CountIsZero | InvalidArea | BadMagic | BadVersion

section \<open>Decoding (decoder.go)\<close>

definition headerLen :: nat where "headerLen = 10"

definition payloadLen :: "Area \<Rightarrow> u16 \<Rightarrow> (raw_error, nat) outcome" where
  "payloadLen area count =
     (if count = 0 then Err CountIsZero
      else if IsBitArea area then Ok (unat ((count + 7) div 8))
      else if IsRegArea area then Ok (unat count * 2)
      else Err InvalidArea)"

definition DecodeOne :: "u16 \<Rightarrow> Reader \<Rightarrow> (raw_error, Packet) outcome \<times> Reader" where
  "DecodeOne port r =
     (case ReadFull r headerLen of
        (Err e, r1) \<Rightarrow> (Err (RawIO e), r1)
      | (Panic, r1) \<Rightarrow> (Panic, r1)
      | (Ok hdr, r1) \<Rightarrow>
          if hdr ! 0 \<noteq> Magic0 \<or> hdr ! 1 \<noteq> Magic1 then (Err BadMagic, r1)
          else if hdr ! 2 \<noteq> Version1 then (Err BadVersion, r1)
          else
            let area = hdr ! 3;
                unitID = be16 hdr 4;
                addr = be16 hdr 6;
                count = be16 hdr 8
            in (case payloadLen area count of
                  Err e \<Rightarrow> (Err e, r1)
                | Panic \<Rightarrow> (Panic, r1)
                | Ok n \<Rightarrow>
                    (case ReadFull r1 n of
                       (Err e, r2) \<Rightarrow> (Err (RawIO e), r2)
                     | (Panic, r2) \<Rightarrow> (Panic, r2)
                     | (Ok payload, r2) \<Rightarrow>
                         (Ok \<lparr>pk_Port = port, pk_UnitID = unitID, pk_Area = area,
                              pk_Address = addr, pk_Count = count, pk_Payload = payload\<rparr>, r2))))"

text \<open>The wire form of a packet.\<close>

definition packet_wire :: "Packet \<Rightarrow> bytes" where
  "packet_wire p =
     [Magic0, Magic1, Version1, pk_Area p] @ be16_bytes (pk_UnitID p) @ be16_bytes (pk_Address p)
       @ be16_bytes (pk_Count p) @ pk_Payload p"

definition packet_valid :: "u16 \<Rightarrow> Packet \<Rightarrow> bool" where
  "packet_valid port p \<longleftrightarrow>
     pk_Port p = port \<and> payloadLen (pk_Area p) (pk_Count p) = Ok (length (pk_Payload p))"

lemma list10:
  assumes "length bs = 10"
  shows "bs = [bs ! 0, bs ! 1, bs ! 2, bs ! 3] @ be16_bytes (be16 bs 4) @ be16_bytes (be16 bs 6)
    @ be16_bytes (be16 bs 8)"
proof -
  have "bs = [bs ! 0, bs ! 1, bs ! 2, bs ! 3, bs ! 4, bs ! 5, bs ! 6, bs ! 7, bs ! 8, bs ! 9]"
    using assms by (auto simp: numeral_eq_Suc length_Suc_conv)
  moreover have "be16_bytes (be16 bs 4) = [bs ! 4, bs ! 5]" "be16_bytes (be16 bs 6) = [bs ! 6, bs ! 7]"
    "be16_bytes (be16 bs 8) = [bs ! 8, bs ! 9]"
    using assms by (simp_all add: be16_bytes_be16)
  ultimately show ?thesis by simp
qed

lemma DecodeOne_wire:
  assumes "packet_valid port p"
  shows "DecodeOne port \<lparr>pending = packet_wire p @ rest, final = x\<rparr>
    = (Ok p, \<lparr>pending = rest, final = x\<rparr>)"
proof -
  define h where "h = [Magic0, Magic1, Version1, pk_Area p] @ be16_bytes (pk_UnitID p)
    @ be16_bytes (pk_Address p) @ be16_bytes (pk_Count p)"
  have 1: "ReadFull \<lparr>pending = h @ pk_Payload p @ rest, final = x\<rparr> headerLen
      = (Ok h, \<lparr>pending = pk_Payload p @ rest, final = x\<rparr>)"
    by (rule ReadFull_append) (simp add: headerLen_def h_def)
  have 2: "ReadFull \<lparr>pending = pk_Payload p @ rest, final = x\<rparr> (length (pk_Payload p))
      = (Ok (pk_Payload p), \<lparr>pending = rest, final = x\<rparr>)"
    by (rule ReadFull_append) simp
  have f: "h ! 0 = Magic0" "h ! 1 = Magic1" "h ! 2 = Version1" "h ! 3 = pk_Area p"
    "be16 h 4 = pk_UnitID p" "be16 h 6 = pk_Address p" "be16 h 8 = pk_Count p"
    by (simp_all add: h_def be16_def be16_bytes_def)
  have "packet_wire p @ rest = h @ pk_Payload p @ rest" by (simp add: packet_wire_def h_def)
  with assms 1 2 f show ?thesis
    by (simp add: DecodeOne_def packet_valid_def Let_def)
qed

lemma DecodeOne_sound:
  assumes "DecodeOne port r = (Ok p, r')"
  shows "packet_valid port p \<and> pending r = packet_wire p @ pending r' \<and> final r' = final r"
proof -
  from assms obtain hdr r1 n payload where
    1: "ReadFull r headerLen = (Ok hdr, r1)" and
    m: "hdr ! 0 = Magic0" "hdr ! 1 = Magic1" "hdr ! 2 = Version1" and
    n: "payloadLen (hdr ! 3) (be16 hdr 8) = Ok n" and
    2: "ReadFull r1 n = (Ok payload, r')" and
    p: "p = \<lparr>pk_Port = port, pk_UnitID = be16 hdr 4, pk_Area = hdr ! 3,
              pk_Address = be16 hdr 6, pk_Count = be16 hdr 8, pk_Payload = payload\<rparr>"
    by (auto simp: DecodeOne_def Let_def split: prod.splits outcome.splits if_splits)
  from 1 have "length hdr = 10" by (simp add: ReadFull_ok_iff headerLen_def)
  from list10 [OF this, unfolded m] have "packet_wire p = hdr @ payload"
    by (simp add: packet_wire_def p)
  with 1 2 n show ?thesis
    by (auto simp: ReadFull_ok_iff packet_valid_def p)
qed

lemma DecodeOne_not_panic: "fst (DecodeOne port r) \<noteq> Panic"
proof
  assume "fst (DecodeOne port r) = Panic"
  moreover have "payloadLen a c \<noteq> Panic" for a c by (simp add: payloadLen_def)
  moreover have "ReadFull q n \<noteq> (Panic, q')" for q n q'
    using ReadFull_not_panic [of q n] by (metis fst_conv)
  ultimately show False
    by (auto simp: DecodeOne_def Let_def split: prod.splits outcome.splits if_splits)
qed

interpretation raw_frames: frame_decoder "DecodeOne port" packet_wire "packet_valid port"
  for port
proof (unfold_locales, goal_cases)
  case (1 f rest x)
  then show ?case by (rule DecodeOne_wire)
next
  case (2 r f r')
  then show ?case by (rule DecodeOne_sound)
qed (simp add: packet_wire_def)

section \<open>The connection (handle_conn.go)\<close>

definition packet_id :: "Packet \<Rightarrow> MemoryID" where
  "packet_id pkt = \<lparr>Port = pk_Port pkt, UnitID = pk_UnitID pkt\<rparr>"

text \<open>The effect of one packet and the status byte it is answered with; \<open>None\<close> is a panic.\<close>

definition write_packet :: "Heap \<Rightarrow> mem_ref option \<Rightarrow> Packet \<Rightarrow> (Heap \<times> u8) option" where
  "write_packet h mem pkt =
     (let put = \<lambda>res. (case res of
            Err (_ :: mem_error) \<Rightarrow> Some (h, RespRejected)
          | Panic \<Rightarrow> None
          | Ok m' \<Rightarrow> Some (case mem of None \<Rightarrow> h | Some r \<Rightarrow> heap_put h r m', RespOK))
      in if IsBitArea (pk_Area pkt) then
           put (WriteBits (deref h mem) (pk_Area pkt) (pk_Address pkt) (pk_Count pkt) (pk_Payload pkt))
         else if IsRegArea (pk_Area pkt) then
           put (WriteRegs (deref h mem) (pk_Area pkt) (pk_Address pkt) (pk_Count pkt) (pk_Payload pkt))
         else Some (h, RespRejected))"

definition apply_packet :: "Heap \<Rightarrow> Store option \<Rightarrow> Packet \<Rightarrow> (Heap \<times> u8) option" where
  "apply_packet h store pkt =
     (case MustGet store (packet_id pkt) of
        Err _ \<Rightarrow> Some (h, RespRejected)
      | Panic \<Rightarrow> None
      | Ok mem \<Rightarrow> write_packet h mem pkt)"

function raw_loop :: "Store option \<Rightarrow> u16 \<Rightarrow> Heap \<Rightarrow> Conn \<Rightarrow> (Heap \<times> Conn) option" where
  "raw_loop store port h conn =
     (case DecodeOne port (incoming conn) of
        (Err e, r) \<Rightarrow>
          Some (h, if e = RawIO EOF then conn\<lparr>incoming := r\<rparr>
                   else snd (conn_write (conn\<lparr>incoming := r\<rparr>) [RespRejected]))
      | (Panic, r) \<Rightarrow> None
      | (Ok pkt, r) \<Rightarrow>
          (case apply_packet h store pkt of
             None \<Rightarrow> None
           | Some (h', status) \<Rightarrow>
               raw_loop store port h' (snd (conn_write (conn\<lparr>incoming := r\<rparr>) [status]))))"
  by pat_completeness auto
termination
  by (relation "measure (\<lambda>(store, port, h, conn). length (pending (incoming conn)))")
     (auto dest!: raw_frames.decode_shrinks [OF sym])

declare raw_loop.simps [simp del]

definition raw_HandleConn :: "Heap \<Rightarrow> Store option \<Rightarrow> Conn \<Rightarrow> (Heap \<times> Conn) option" where
  "raw_HandleConn h store conn =
     (case local_port conn of
        None \<Rightarrow> Some (h, conn_close conn)
      | Some lp \<Rightarrow>
          (case raw_loop store (of_nat lp) h conn of
             None \<Rightarrow> None
           | Some (h', conn') \<Rightarrow> Some (h', conn_close conn')))"

end
