(* ===== verification/RawIngestSpec.thy ===== *)
theory RawIngestSpec
  imports RawIngest
begin

text \<open>
  Raw ingest against the abstract appliance: one packet is one write command, its status byte says
  whether the command was carried out, and a connection answers every packet with one byte.
\<close>

section \<open>A packet as a command\<close>

definition packet_cells :: "Packet \<Rightarrow> cell list" where
  "packet_cells pkt =
     (if IsBitArea (pk_Area pkt) then bit_run (pk_Payload pkt) (unat (pk_Count pkt))
      else map RegCell (bytes_regs (pk_Payload pkt)))"

definition packet_command :: "Packet \<Rightarrow> command" where
  "packet_command pkt = WriteCells (pk_Area pkt) (pk_Address pkt) (packet_cells pkt)"

definition status_of :: "result \<Rightarrow> u8" where
  "status_of res = (if res = Ack then RespOK else RespRejected)"

text \<open>A packet that came off the wire has a count, a known area and a payload of the right size.\<close>

lemma valid_packet:
  assumes "packet_valid port pkt"
  shows "pk_Count pkt \<noteq> 0" and "IsBitArea (pk_Area pkt) \<or> IsRegArea (pk_Area pkt)"
    and "IsBitArea (pk_Area pkt) \<Longrightarrow> bytesForBits (pk_Count pkt) = length (pk_Payload pkt)"
    and "\<not> IsBitArea (pk_Area pkt) \<Longrightarrow> length (pk_Payload pkt) = unat (pk_Count pkt) * 2"
  using assms
  by (auto simp: packet_valid_def payloadLen_def bytesForBits_def split: if_splits)

text \<open>The write a packet asks for, on the instance it resolves to.\<close>

definition packet_write :: "Memory \<Rightarrow> Packet \<Rightarrow> (mem_error, Memory) outcome" where
  "packet_write m pkt =
     (if IsBitArea (pk_Area pkt)
      then WriteBits (Some m) (pk_Area pkt) (pk_Address pkt) (pk_Count pkt) (pk_Payload pkt)
      else if IsRegArea (pk_Area pkt)
      then WriteRegs (Some m) (pk_Area pkt) (pk_Address pkt) (pk_Count pkt) (pk_Payload pkt)
      else Err ErrInvalidArea)"

lemma apply_packet_eq:
  assumes "store_data s (packet_id pkt) = Some r" and "instances h r = Some m"
  shows "apply_packet h (Some s) pkt =
    (case packet_write m pkt of
       Err _ \<Rightarrow> Some (h, RespRejected) | Panic \<Rightarrow> None | Ok m' \<Rightarrow> Some (heap_put h r m', RespOK))"
  by (simp add: apply_packet_def MustGet_simp assms write_packet_def packet_write_def deref_def
      split: outcome.split)

lemma apply_packet_unknown:
  "store_data s (packet_id pkt) = None \<Longrightarrow> apply_packet h (Some s) pkt = Some (h, RespRejected)"
  by (simp add: apply_packet_def MustGet_simp)

lemma packet_write_no_panic: "wf_memory m \<Longrightarrow> no_panic (packet_write m pkt)"
  by (simp add: packet_write_def WriteBits_no_panic WriteRegs_no_panic)

lemma packet_write_keeps:
  "wf_memory m \<Longrightarrow> packet_write m pkt = Ok m' \<Longrightarrow> wf_memory m' \<and> same_shape m m'"
  by (auto simp: packet_write_def split: if_splits
      intro: WriteBits_keeps WriteRegs_effect(2) WriteRegs_effect(3))

lemma packet_write_op:
  assumes "packet_valid port pkt" and "backed_memory m"
  shows "defined_run (cell_at m) (pk_Area pkt) (unat (pk_Address pkt)) (length (packet_cells pkt)) \<Longrightarrow>
      \<exists>m'. packet_write m pkt = Ok m' \<and> backed_memory m' \<and>
        cell_at m' = upd_cells (cell_at m) (pk_Area pkt) (unat (pk_Address pkt))
          (length (packet_cells pkt)) ((!) (packet_cells pkt))"
    and "\<not> defined_run (cell_at m) (pk_Area pkt) (unat (pk_Address pkt)) (length (packet_cells pkt)) \<Longrightarrow>
      \<exists>e. packet_write m pkt = Err e"
proof (atomize (full), cases "IsBitArea (pk_Area pkt)")
  case True
  note v = valid_packet(1,3) [OF assms(1)]
  have "bytesForBits (pk_Count pkt) \<le> length (pk_Payload pkt)" using v(2) [OF True] by simp
  note op = write_bits_op [OF True this v(1) bit_run_def assms(2), of "pk_Address pkt"]
  have "packet_cells pkt = bit_run (pk_Payload pkt) (unat (pk_Count pkt))"
    "packet_write m pkt
      = WriteBits (Some m) (pk_Area pkt) (pk_Address pkt) (pk_Count pkt) (pk_Payload pkt)"
    using True by (simp_all add: packet_cells_def packet_write_def)
  with op show "(defined_run (cell_at m) (pk_Area pkt) (unat (pk_Address pkt))
        (length (packet_cells pkt)) \<longrightarrow>
      (\<exists>m'. packet_write m pkt = Ok m' \<and> backed_memory m' \<and>
        cell_at m' = upd_cells (cell_at m) (pk_Area pkt) (unat (pk_Address pkt))
          (length (packet_cells pkt)) ((!) (packet_cells pkt)))) \<and>
    (\<not> defined_run (cell_at m) (pk_Area pkt) (unat (pk_Address pkt)) (length (packet_cells pkt)) \<longrightarrow>
      (\<exists>e. packet_write m pkt = Err e))" by metis
next
  case False
  note v = valid_packet(1,2,4) [OF assms(1)]
  have reg: "IsRegArea (pk_Area pkt)" using v(2) False by simp
  have ev: "even (length (pk_Payload pkt))" using v(3) [OF False] by simp
  have q: "unat (pk_Count pkt) = length (bytes_regs (pk_Payload pkt))"
    using v(3) [OF False] by simp
  note op = write_regs_op [OF reg q v(1) assms(2), of "pk_Address pkt",
      unfolded regs_bytes_regs [OF ev]]
  have "packet_cells pkt = map RegCell (bytes_regs (pk_Payload pkt))"
    "packet_write m pkt
      = WriteRegs (Some m) (pk_Area pkt) (pk_Address pkt) (pk_Count pkt) (pk_Payload pkt)"
    using False reg by (simp_all add: packet_cells_def packet_write_def)
  with op show "(defined_run (cell_at m) (pk_Area pkt) (unat (pk_Address pkt))
        (length (packet_cells pkt)) \<longrightarrow>
      (\<exists>m'. packet_write m pkt = Ok m' \<and> backed_memory m' \<and>
        cell_at m' = upd_cells (cell_at m) (pk_Area pkt) (unat (pk_Address pkt))
          (length (packet_cells pkt)) ((!) (packet_cells pkt)))) \<and>
    (\<not> defined_run (cell_at m) (pk_Area pkt) (unat (pk_Address pkt)) (length (packet_cells pkt)) \<longrightarrow>
      (\<exists>e. packet_write m pkt = Err e))" by metis
qed

lemma apply_packet_implements:
  assumes "backed_store h s" and "packet_valid port pkt"
  shows "\<exists>h' A' res. exec_command (abs_store h s) (packet_id pkt) (packet_command pkt) = (A', res) \<and>
    apply_packet h (Some s) pkt = Some (h', status_of res) \<and>
    abs_store h' s = A' \<and> backed_store h' s"
proof (cases "store_data s (packet_id pkt)")
  case None
  with assms(1) show ?thesis
    by (simp add: apply_packet_unknown abs_store_def memory_of_def packet_command_def status_of_def)
next
  case (Some r)
  from assms(1) have wf: "wf_store h s" by (simp add: backed_store_def)
  obtain m where m: "instances h r = Some m" "memory_of h s (packet_id pkt) = Some m"
    by (rule wf_storeD [OF wf Some])
  with assms(1) have bm: "backed_memory m" by (auto simp: backed_store_def)
  have a: "abs_store h s (packet_id pkt) = Some (cell_at m)" by (simp add: abs_store_def m)
  note ap = apply_packet_eq [OF Some m(1)]
  show ?thesis
  proof (cases "defined_run (cell_at m) (pk_Area pkt) (unat (pk_Address pkt))
      (length (packet_cells pkt))")
    case True
    from packet_write_op(1) [OF assms(2) bm True]
    obtain m' where m': "packet_write m pkt = Ok m'" "backed_memory m'"
      "cell_at m' = upd_cells (cell_at m) (pk_Area pkt) (unat (pk_Address pkt))
        (length (packet_cells pkt)) ((!) (packet_cells pkt))" by blast
    with True backed_store_put [OF assms(1) Some m'(2)] abs_store_put [OF wf Some, of m']
    show ?thesis by (simp add: ap a packet_command_def status_of_def)
  next
    case False
    from packet_write_op(2) [OF assms(2) bm False] obtain e where "packet_write m pkt = Err e" by blast
    with False assms(1) show ?thesis
      by (simp add: ap a packet_command_def status_of_def)
  qed
qed

section \<open>Safety on every well-formed store\<close>

lemma apply_packet_safe:
  assumes "wf_store h s"
  shows "\<exists>h' status. apply_packet h (Some s) pkt = Some (h', status) \<and>
    status \<in> {RespOK, RespRejected} \<and> touches h s (packet_id pkt) h' \<and>
    (status = RespRejected \<longrightarrow> h' = h)"
proof (cases "store_data s (packet_id pkt)")
  case None
  with assms show ?thesis by (simp add: apply_packet_unknown)
next
  case (Some r)
  obtain m where m: "instances h r = Some m" "wf_memory m" "memory_of h s (packet_id pkt) = Some m"
    by (rule wf_storeD [OF assms Some])
  note ap = apply_packet_eq [OF Some m(1)]
  show ?thesis
  proof (cases "packet_write m pkt")
    case (Ok m')
    with packet_write_keeps [OF m(2) Ok] have "touches h s (packet_id pkt) (heap_put h r m')"
      by (intro touches_put [OF assms Some m(3)]) simp_all
    with Ok show ?thesis by (simp add: ap RespOK_def RespRejected_def)
  qed (use packet_write_no_panic [OF m(2), of pkt] assms in \<open>simp_all add: ap\<close>)
qed

section \<open>The whole connection\<close>

lemma raw_loop_invariant:
  assumes "wf_store h s" and "P h"
    and step: "\<And>h h' pkt st. wf_store h s \<Longrightarrow> P h \<Longrightarrow> packet_valid port pkt \<Longrightarrow>
      apply_packet h (Some s) pkt = Some (h', st) \<Longrightarrow> P h'"
  shows "\<exists>h' conn'. raw_loop (Some s) port h conn = Some (h', conn') \<and> wf_store h' s \<and> P h'"
  using assms(1,2)
proof (induction "length (pending (incoming conn))" arbitrary: h conn rule: less_induct)
  case less
  note loop = raw_loop.simps [of "Some s" port h conn]
  obtain o' r where rd: "DecodeOne port (incoming conn) = (o', r)" by fastforce
  show ?case
  proof (cases o')
    case (Ok pkt)
    with rd have rd: "DecodeOne port (incoming conn) = (Ok pkt, r)" by simp
    from raw_frames.decode_shrinks [OF rd]
    have shrink: "length (pending (incoming (snd (conn_write (conn\<lparr>incoming := r\<rparr>) [st]))))
      < length (pending (incoming conn))" for st by simp
    from raw_frames.decode_sound [OF rd] have v: "packet_valid port pkt" by simp
    obtain h' st where ap: "apply_packet h (Some s) pkt = Some (h', st)"
      and t: "touches h s (packet_id pkt) h'"
      using apply_packet_safe [OF less.prems(1), of pkt] by blast
    from less.hyps [OF shrink touches_wf [OF t] step [OF less.prems v ap]]
    show ?thesis by (simp add: loop rd ap)
  qed (use rd less.prems DecodeOne_not_panic [of port "incoming conn"] in
        \<open>simp_all add: loop\<close>)
qed

lemma raw_HandleConn_invariant:
  assumes "wf_store h s" and "P h"
    and step: "\<And>h h' pkt st lp. wf_store h s \<Longrightarrow> P h \<Longrightarrow> local_port conn = Some lp \<Longrightarrow>
      packet_valid (of_nat lp) pkt \<Longrightarrow> apply_packet h (Some s) pkt = Some (h', st) \<Longrightarrow> P h'"
  shows "\<exists>h' conn'. raw_HandleConn h (Some s) conn = Some (h', conn') \<and> closed conn' \<and>
    wf_store h' s \<and> P h'"
proof (cases "local_port conn")
  case (Some lp)
  have "\<exists>h' conn'. raw_loop (Some s) (of_nat lp) h conn = Some (h', conn') \<and> wf_store h' s \<and> P h'"
    by (rule raw_loop_invariant [where P = P, OF assms(1,2)]) (rule step [OF _ _ Some])
  then show ?thesis by (auto simp: raw_HandleConn_def conn_close_def Some)
qed (use assms in \<open>simp add: raw_HandleConn_def conn_close_def\<close>)

text \<open>The packet-level run of a connection.\<close>

fun apply_all :: "Heap \<Rightarrow> Store option \<Rightarrow> Packet list \<Rightarrow> (Heap \<times> bytes) option" where
  "apply_all h store [] = Some (h, [])"
| "apply_all h store (p # ps) =
     (case apply_packet h store p of
        None \<Rightarrow> None
      | Some (h', st) \<Rightarrow> map_option (\<lambda>(h'', sts). (h'', st # sts)) (apply_all h' store ps))"

lemma raw_loop_frames:
  assumes "wf_store h s" and "writable conn" and "\<forall>p \<in> set ps. packet_valid port p"
    and "incoming conn = \<lparr>pending = concat (map packet_wire ps), final = EOF\<rparr>"
  shows "\<exists>h' sts. apply_all h (Some s) ps = Some (h', sts) \<and> length sts = length ps \<and>
    wf_store h' s \<and>
    raw_loop (Some s) port h conn = Some (h', conn
      \<lparr>incoming := \<lparr>pending = [], final = EOF\<rparr>, sent := sent conn @ map (\<lambda>st. [st]) sts,
       write_fate := drop (length ps) (write_fate conn)\<rparr>)"
  using assms
proof (induction ps arbitrary: h conn)
  case Nil
  then have "DecodeOne port (incoming conn) = (Err (RawIO EOF), \<lparr>pending = [], final = EOF\<rparr>)"
    by (simp add: DecodeOne_def ReadFull_def headerLen_def)
  with Nil show ?case by (simp add: raw_loop.simps)
next
  case (Cons p ps)
  note loop = raw_loop.simps [of "Some s" port h conn]
  let ?r = "\<lparr>pending = concat (map packet_wire ps), final = EOF\<rparr>"
  have rd: "DecodeOne port (incoming conn) = (Ok p, ?r)"
    using Cons.prems raw_frames.decode_wire [of port p "concat (map packet_wire ps)" EOF] by simp
  let ?sends = "\<lambda>st. conn_write (conn\<lparr>incoming := ?r\<rparr>) [st]"
  have w: "writable (conn\<lparr>incoming := ?r\<rparr>)" using Cons.prems by (simp add: writable_def)
  have wr: "writable (snd (?sends st))"
    "snd (?sends st) = conn\<lparr>incoming := ?r, sent := sent conn @ [[st]],
       write_fate := drop 1 (write_fate conn)\<rparr>" for st
    using writable_write [OF w] w
    by (auto simp: conn_write_def writable_def split: list.splits option.splits)
  obtain h' st where ap: "apply_packet h (Some s) p = Some (h', st)"
    and t: "touches h s (packet_id p) h'"
    using apply_packet_safe [OF Cons.prems(1), of p] by blast
  from Cons.IH [OF touches_wf [OF t] wr(1) [of st]] Cons.prems(3) show ?case
    unfolding wr(2) by (fastforce simp: loop rd ap wr(2))
qed

end
