(* ===== verification/Startup.thy ===== *)
theory Startup
  imports BuildLaws Ingress ModbusConn RawIngestSpec
begin

text \<open>
  cmd/mma2/main.go: load the configuration, validate, build the store, build and install the policies,
  and hand every accepted connection to its protocol.
\<close>

section \<open>Startup\<close>

datatype start_error =
    ValidationFailed cfg_error | MemoryBuildFailed build_error | PolicyBuildFailed build_error

text \<open>
  \<open>for mid, p := range policies\<close>: Go visits the entries of a map in an order of its own, here the
  order of the list.
\<close>

fun installPolicies :: "policy_entries \<Rightarrow> Authority \<Rightarrow> Authority" where
  "installPolicies [] auth = auth"
| "installPolicies ((mid, p) # rest) auth = installPolicies rest (SetMemoryPolicy auth mid p)"

definition startup :: "Config option \<Rightarrow> (start_error, Heap \<times> Store \<times> Authority) outcome" where
  "startup cfg =
     (case Validate cfg of
        Err e \<Rightarrow> Err (ValidationFailed e)
      | Panic \<Rightarrow> Panic
      | Ok _ \<Rightarrow>
          (case BuildMemoryStore cfg of
             Err e \<Rightarrow> Err (MemoryBuildFailed e)
           | Panic \<Rightarrow> Panic
           | Ok (h, store) \<Rightarrow>
               (case BuildAuthorityPolicies cfg of
                  Err e \<Rightarrow> Err (PolicyBuildFailed e)
                | Panic \<Rightarrow> Panic
                | Ok entries \<Rightarrow> Ok (h, store, installPolicies entries NewAuthority))))"

text \<open>
  The whole of \<open>main\<close> up to the listeners: the first argument is the name of the program, an error is
  a call of \<open>log.Fatal\<close>.
\<close>

datatype ('e, 'f) fatal = Usage | ConfigLoadFailed "('e, 'f) load_error" | StartFailed start_error

definition main_start ::
  "(string \<Rightarrow> 'e + bytes) \<Rightarrow> (bytes \<Rightarrow> 'f + Config) \<Rightarrow> string list
    \<Rightarrow> (('e, 'f) fatal, Heap \<times> Store \<times> Authority) outcome" where
  "main_start readFile unmarshal args =
     (if length args < 2 then Err Usage
      else
        (case Load readFile unmarshal (args ! 1) of
           Err e \<Rightarrow> Err (ConfigLoadFailed e)
         | Panic \<Rightarrow> Panic
         | Ok cfg \<Rightarrow>
             (case startup (Some cfg) of
                Err e \<Rightarrow> Err (StartFailed e)
              | Panic \<Rightarrow> Panic
              | Ok running \<Rightarrow> Ok running)))"

text \<open>The callbacks of a listener, and what it does with one accepted connection.\<close>

definition onModbus :: "Store \<Rightarrow> Authority \<Rightarrow> Heap \<Rightarrow> Conn \<Rightarrow> (Heap \<times> Conn) option" where
  "onModbus store auth h conn = mb_HandleConn h (Some store) auth conn"

definition onRawIngest :: "Store \<Rightarrow> Heap \<Rightarrow> Conn \<Rightarrow> (Heap \<times> Conn) option" where
  "onRawIngest store h conn = raw_HandleConn h (Some store) conn"

definition accept :: "Store \<Rightarrow> Authority \<Rightarrow> Heap \<Rightarrow> Conn \<Rightarrow> (Heap \<times> Conn) option" where
  "accept store auth = handleConn (onModbus store auth) (onRawIngest store)"

section \<open>The installed policies\<close>

lemma installPolicies_fold:
  "fold_opt (\<lambda>(mid, p). (\<lambda>mid p a. Some (SetMemoryPolicy a mid p)) mid p) es a
    = Some (installPolicies es a)"
  by (induction es a rule: installPolicies.induct) simp_all

lemma installPolicies_sealing [simp]: "sealing (installPolicies es a) = sealing a"
  by (induction es a rule: installPolicies.induct) (simp_all add: SetMemoryPolicy_def)

lemma installed:
  "distinct (map fst es) \<Longrightarrow> policies (installPolicies es NewAuthority) mid = map_of es mid"
  by (rule policy_table.get_add_all_distinct [OF installPolicies_fold])

lemma installed_order:
  "distinct (map fst es) \<Longrightarrow> distinct (map fst es') \<Longrightarrow> set es = set es' \<Longrightarrow>
    policies (installPolicies es NewAuthority) mid = policies (installPolicies es' NewAuthority) mid"
  by (rule policy_table.add_all_order [OF installPolicies_fold installPolicies_fold])

text \<open>What the configuration grants a source on a memory.\<close>

definition config_permits :: "IngressGate list \<Rightarrow> MemoryID \<Rightarrow> Addr \<Rightarrow> u8 \<Rightarrow> bool" where
  "config_permits gs mid a fc =
     (case map_of (declared gs) mid of
        None \<Rightarrow> False
      | Some d \<Rightarrow>
          (case md_Policy d of None \<Rightarrow> False | Some pc \<Rightarrow> rules_permit (pc_Rules pc) a fc))"

lemma Evaluate_installed:
  assumes "policies_for es (declared gs)" and "distinct (map fst (declared gs))"
  shows "Allowed (Evaluate (installPolicies es NewAuthority)
      \<lparr>req_MemoryID = mid, req_SourceIP = a, req_FunctionCode = fc\<rparr>) \<longleftrightarrow> config_permits gs mid a fc"
proof -
  let ?auth = "installPolicies es NewAuthority"
  from assms(1) have pol: "policies ?auth mid = map_of es mid"
    by (intro installed) (simp add: policies_for_def)
  have unsealed: "\<not> IsSealed (sealing NewAuthority) mid"
    by (simp add: NewAuthority_def NewSealing_def IsSealed_def)
  have look: "map_of (declared gs) mid = Some d" if "(mid, d) \<in> set (declared gs)" for d
    using assms(2) that by simp
  show ?thesis
  proof (cases "\<exists>d pc. map_of (declared gs) mid = Some d \<and> md_Policy d = Some pc")
    case True
    then obtain d pc where d: "map_of (declared gs) mid = Some d" "md_Policy d = Some pc" by blast
    from map_of_SomeD [OF d(1)] d(2) assms(1) have "policy_built pc (map_of es mid)"
      by (auto simp: policies_for_def)
    then obtain rs where "map_of es mid = Some (Some \<lparr>Rules = map Some rs\<rparr>)"
      "built_rules (pc_Rules pc) rs" by (auto simp: policy_built_def)
    then show ?thesis
      by (simp add: Evaluate_allowed unsealed rules_of_def pol built_rules_permit config_permits_def d)
  next
    case False
    then have "md_Policy d = None" if "(mid, d) \<in> set (declared gs)" for d
      using look [OF that] by (cases "md_Policy d") auto
    with assms(1) have "map_of es mid = None" by (auto simp: policies_for_def)
    moreover from False have "\<not> config_permits gs mid a fc"
      by (auto simp: config_permits_def split: option.splits)
    ultimately show ?thesis by (simp add: Evaluate_allowed rules_of_def pol)
  qed
qed

section \<open>What a successful startup establishes\<close>

lemma startup_ok:
  assumes "startup (Some cfg) = Ok (h, s, auth)"
  obtains es where "Validate (Some cfg) = Ok ()" "BuildMemoryStore (Some cfg) = Ok (h, s)"
    "BuildAuthorityPolicies (Some cfg) = Ok es" "auth = installPolicies es NewAuthority"
  using assms by (auto simp: startup_def split: outcome.splits)

lemma started:
  assumes "startup (Some cfg) = Ok (h, s, auth)"
  shows "wf_store h s"
    and "memory_of h s mid = map_option memory_from (map_of (declared (cfg_Ingress cfg)) mid)"
    and "Allowed (Evaluate auth \<lparr>req_MemoryID = mid, req_SourceIP = a, req_FunctionCode = fc\<rparr>) \<longleftrightarrow>
      config_permits (cfg_Ingress cfg) mid a fc"
proof -
  from assms obtain es where v: "Validate (Some cfg) = Ok ()"
    and b: "BuildMemoryStore (Some cfg) = Ok (h, s)"
    and p: "BuildAuthorityPolicies (Some cfg) = Ok es" "auth = installPolicies es NewAuthority"
    by (rule startup_ok)
  note built = BuildMemoryStore_built [OF b]
  from Validate_sound(3) [OF v] have dist: "distinct (map fst (declared (cfg_Ingress cfg)))" by simp
  show "wf_store h s" by (rule built(1))
  have "map_of (rev (declared (cfg_Ingress cfg))) = map_of (declared (cfg_Ingress cfg))"
    using dist map_of_inject_set [of "rev (declared (cfg_Ingress cfg))" "declared (cfg_Ingress cfg)"]
    by (simp flip: rev_map)
  then show "memory_of h s mid = map_option memory_from (map_of (declared (cfg_Ingress cfg)) mid)"
    by (simp add: built(2))
  show "Allowed (Evaluate auth \<lparr>req_MemoryID = mid, req_SourceIP = a, req_FunctionCode = fc\<rparr>) \<longleftrightarrow>
      config_permits (cfg_Ingress cfg) mid a fc"
    unfolding p(2)
    by (rule Evaluate_installed [OF BuildAuthorityPolicies_built [OF p(1) built(3)] dist])
qed

text \<open>Exactly which accepted configurations start.\<close>

lemma startup_is_ok:
  assumes "Validate (Some cfg) = Ok ()"
  shows "is_ok (startup (Some cfg)) \<longleftrightarrow>
    cfg_Memories cfg = [] \<and>
    (\<forall>(mid, d) \<in> set (declared (cfg_Ingress cfg)). UnitID mid \<noteq> 0 \<and> policy_builds d)"
proof (cases "cfg_Memories cfg = []")
  case True
  note v = Validate_sound [OF assms]
  from v(3) have "unseen [] (map fst (declared (cfg_Ingress cfg)))" by (simp add: unseen_def)
  from policiesListeners_loop_is_ok [OF this] v(1)
  have p: "is_ok (BuildAuthorityPolicies (Some cfg)) \<longleftrightarrow>
      (\<forall>(mid, d) \<in> set (declared (cfg_Ingress cfg)). policy_builds d)"
    by (simp add: BuildAuthorityPolicies_def True)
  have "buildable mid d \<longleftrightarrow> UnitID mid \<noteq> 0" if "(mid, d) \<in> set (declared (cfg_Ingress cfg))" for mid d
    using v(2) that by (auto simp: buildable_def def_ok_def MemoryID_Validate_iff)
  then have b: "is_ok (BuildMemoryStore (Some cfg)) \<longleftrightarrow>
      (\<forall>(mid, d) \<in> set (declared (cfg_Ingress cfg)). UnitID mid \<noteq> 0)"
    using v(1) by (auto simp: BuildMemoryStore_def True buildListeners_loop_is_ok)
  show ?thesis
  proof (cases "BuildMemoryStore (Some cfg)")
    case (Ok hs)
    obtain h s where hs: "hs = (h, s)" by fastforce
    show ?thesis
      using b p by (cases "BuildAuthorityPolicies (Some cfg)")
        (auto simp: startup_def assms Ok hs True)
  qed (use b in \<open>auto simp: startup_def assms True\<close>)
qed (simp add: startup_def assms BuildMemoryStore_def)

section \<open>Serving\<close>

lemma accept_cases:
  "accept store auth h conn =
    (if length (pending (incoming conn)) < 2 then Some (h, conn_close conn)
     else if take 2 (pending (incoming conn)) = [0x52, 0x49] then raw_HandleConn h (Some store) conn
     else mb_HandleConn h (Some store) auth conn)"
  by (simp add: accept_def handleConn_cases onModbus_def onRawIngest_def)

text \<open>
  An invariant of what both protocols do to the shared memories on the port of a connection is an
  invariant of the connection.
\<close>

lemma accept_invariant:
  assumes "wf_store h s" and "P h"
    and step: "\<And>h h' mid lp. wf_store h s \<Longrightarrow> P h \<Longrightarrow> local_port conn = Some lp \<Longrightarrow>
      Port mid = of_nat lp \<Longrightarrow> touches h s mid h' \<Longrightarrow> P h'"
  shows "\<exists>h' conn'. accept s auth h conn = Some (h', conn') \<and> closed conn' \<and> wf_store h' s \<and> P h'"
proof -
  have "\<exists>h' conn'. mb_HandleConn h (Some s) auth conn = Some (h', conn') \<and> closed conn' \<and>
      wf_store h' s \<and> P h'"
  proof (rule HandleConn_invariant [where P = P, OF assms(1,2)])
    fix h h' q r lp src
    assume a: "wf_store h s" "P h" "local_port conn = Some lp" "mb_Port q = of_nat lp"
      "serve h (Some s) auth src q = Some (h', r)"
    have "Port (memory_id q) = of_nat lp" using a(4) by (simp add: memory_id_def)
    then show "P h'" by (rule step [OF a(1-3) _ serve_keeps(1) [OF a(1,5)]])
  qed
  moreover have "\<exists>h' conn'. raw_HandleConn h (Some s) conn = Some (h', conn') \<and> closed conn' \<and>
      wf_store h' s \<and> P h'"
  proof (rule raw_HandleConn_invariant [where P = P, OF assms(1,2)])
    fix h h' pkt st lp
    assume a: "wf_store h s" "P h" "local_port conn = Some lp" "packet_valid (of_nat lp) pkt"
      "apply_packet h (Some s) pkt = Some (h', st)"
    with apply_packet_safe [OF a(1), of pkt] have t: "touches h s (packet_id pkt) h'" by auto
    have "Port (packet_id pkt) = of_nat lp" using a(4) by (simp add: packet_id_def packet_valid_def)
    then show "P h'" by (rule step [OF a(1-3) _ t])
  qed
  ultimately show ?thesis using assms(1,2) by (simp add: accept_cases conn_close_def)
qed

lemma main_start_ok:
  "main_start readFile unmarshal args = Ok (h, s, auth) \<longleftrightarrow>
    2 \<le> length args \<and>
    (\<exists>data cfg. readFile (args ! 1) = Inr data \<and> unmarshal data = Inr cfg \<and>
      startup (Some cfg) = Ok (h, s, auth))"
  by (auto simp: main_start_def Load_def split: sum.splits outcome.splits)

text \<open>A memory that is declared with a sealing bit starts sealed.\<close>

lemma memory_from_sealed:
  assumes "areas_fit d" and "md_StateSealing d \<noteq> None"
  shows "is_sealed (memory_from d)"
proof -
  from NewMemory_from [OF assms(1)] obtain m where m: "NewMemory (layouts_of d) = Ok m"
    "memory_from d = m\<lparr>stateSealing := sealing_of d\<rparr>" by blast
  have "cell_at (memory_from d) = cell_at m"
    by (simp add: fun_eq_iff m(2) cell_at_def bitBacking_def regBacking_def)
  moreover have "cell_at m a i \<noteq> Some (BitCell True)" for a i
    using NewMemory_cells_zero [OF m(1), of a i] by auto
  ultimately show ?thesis using assms(2) by (auto simp: is_sealed_def m(2) sealing_of_def)
qed

lemma started_sealed:
  assumes "startup (Some cfg) = Ok (h, s, auth)" and "map_of (declared (cfg_Ingress cfg)) mid = Some d"
    and "md_StateSealing d \<noteq> None"
  shows "memory_of h s mid = Some (memory_from d)" and "is_sealed (memory_from d)"
proof -
  show "memory_of h s mid = Some (memory_from d)" using started(2) [OF assms(1)] assms(2) by simp
  from assms(1) have "Validate (Some cfg) = Ok ()" by (rule startup_ok)
  from Validate_sound(2) [OF this] map_of_SomeD [OF assms(2)] have "areas_fit d"
    by (auto simp: def_ok_def)
  then show "is_sealed (memory_from d)" using assms(3) by (rule memory_from_sealed)
qed

text \<open>A configuration none of whose bit areas is so large that its size in bytes wraps.\<close>

definition small_areas :: "MemoryDefinition \<Rightarrow> bool" where
  "small_areas d \<longleftrightarrow> unat (ca_Count (md_Coils d)) < 65529 \<and> unat (ca_Count (md_DiscreteInputs d)) < 65529"

lemma memory_from_backed:
  assumes "areas_fit d" and "small_areas d"
  shows "backed_memory (memory_from d)"
proof -
  from NewMemory_from [OF assms(1)] obtain m where m: "NewMemory (layouts_of d) = Ok m"
    "memory_from d = m\<lparr>stateSealing := sealing_of d\<rparr>" by blast
  from assms(2) NewMemory_shape [OF m(1)] show ?thesis
    by (auto simp: m(2) backed_memory_def wf_memory_def small_layout_def layouts_of_def
        area_layout_def small_areas_def)
qed

lemma started_backed:
  assumes "startup (Some cfg) = Ok (h, s, auth)"
    and "list_all (small_areas \<circ> snd) (declared (cfg_Ingress cfg))"
  shows "backed_store h s"
proof -
  from assms(1) have "Validate (Some cfg) = Ok ()" by (rule startup_ok)
  note v = Validate_sound(2) [OF this]
  have "backed_memory m" if "memory_of h s mid = Some m" for mid m
  proof -
    from that started(2) [OF assms(1), of mid] obtain d where
      d: "map_of (declared (cfg_Ingress cfg)) mid = Some d" "m = memory_from d" by auto
    from map_of_SomeD [OF d(1)] v assms(2) have "areas_fit d" "small_areas d"
      by (auto simp: def_ok_def list_all_iff)
    with d(2) show ?thesis by (simp add: memory_from_backed)
  qed
  with started(1) [OF assms(1)] show ?thesis by (auto simp: backed_store_def)
qed
end
