(* ===== verification/Examples.thy ===== *)
theory Examples
  imports Startup
begin

text \<open>
  A small appliance the applications of the theorems run on: one memory on port 502 under unit 1,
  with 16 coils, 4 holding registers and the sealing bit in coil 0, and the configuration of it.
\<close>

definition ex_id :: MemoryID where
  "ex_id = \<lparr>Port = 502, UnitID = 1\<rparr>"

text \<open>\<open>ex_memory b\<close>: sealed when the byte \<open>b\<close> of the first eight coils has bit 0 clear.\<close>

definition ex_memory :: "u8 \<Rightarrow> Memory" where
  "ex_memory b =
     \<lparr>coilsLayout = Some \<lparr>Start = 0, Size = 16\<rparr>, discreteInputsLayout = None,
      holdingRegsLayout = Some \<lparr>Start = 0, Size = 4\<rparr>, inputRegsLayout = None,
      coilsBits = [b, 0], discreteInputsBits = [], holdingRegs = [7, 0, 0, 0], inputRegs = [],
      stateSealing = Some \<lparr>seal_Area = AreaCoils, seal_Address = 0\<rparr>\<rparr>"

definition ex_heap :: "u8 \<Rightarrow> Heap" where
  "ex_heap b = \<lparr>instances = [0 \<mapsto> ex_memory b], next_ref = 1\<rparr>"

definition ex_store :: Store where
  "ex_store = \<lparr>store_data = [ex_id \<mapsto> 0]\<rparr>"

lemma ex_memory_backed: "backed_memory (ex_memory b)"
  by (simp add: backed_memory_def wf_memory_def wf_bits_def wf_regs_def small_layout_def
      ex_memory_def Layout_Validate_iff lay_end_def bytesForBits_def)

lemma ex_memory_wf: "wf_memory (ex_memory b)"
  using ex_memory_backed by (simp add: backed_memory_def)

lemma ex_memory_of: "memory_of (ex_heap b) ex_store mid = (if mid = ex_id then Some (ex_memory b) else None)"
  by (simp add: memory_of_def ex_heap_def ex_store_def)

lemma ex_store_wf: "wf_store (ex_heap b) ex_store"
  using ex_memory_wf
  by (auto simp: wf_store_def ex_store_def ex_heap_def ex_id_def MemoryID_Validate_def
      split: if_splits)

lemma ex_store_backed: "backed_store (ex_heap b) ex_store"
  using ex_store_wf ex_memory_backed by (simp add: backed_store_def ex_memory_of)

definition ex_policy :: MemoryPolicyConfig where
  "ex_policy =
     \<lparr>pc_Rules =
       [\<lparr>pr_ID = ''hmi'', pr_SourceIP = [''10.0.0.0/8''], pr_AllowFC = [1, 3]\<rparr>,
        \<lparr>pr_ID = ''plc'', pr_SourceIP = [''127.0.0.1''], pr_AllowFC = [1, 3, 5, 16]\<rparr>]\<rparr>"

definition ex_def :: MemoryDefinition where
  "ex_def =
     \<lparr>md_Port = 0, md_UnitID = 1, md_Coils = \<lparr>ca_Start = 0, ca_Count = 16\<rparr>,
      md_DiscreteInputs = \<lparr>ca_Start = 0, ca_Count = 0\<rparr>,
      md_HoldingRegs = \<lparr>ca_Start = 0, ca_Count = 4\<rparr>,
      md_InputRegs = \<lparr>ca_Start = 0, ca_Count = 0\<rparr>,
      md_StateSealing = Some \<lparr>ss_Area = '' Coil'', ss_Address = 0\<rparr>,
      md_Policy = Some ex_policy\<rparr>"

definition ex_cfg :: "MemoryDefinition list \<Rightarrow> Config" where
  "ex_cfg ds =
     \<lparr>cfg_Ingress = [\<lparr>gate_ID = ''main'', gate_Listen = ''0.0.0.0:502'', gate_Memory = ds\<rparr>],
      cfg_Memories = []\<rparr>"

lemma ex_valid: "Validate (Some (ex_cfg [ex_def])) = Ok ()"
  by code_simp

lemma ex_startup: "\<exists>h s auth. startup (Some (ex_cfg [ex_def])) = Ok (h, s, auth)"
proof -
  have "is_ok (startup (Some (ex_cfg [ex_def])))" by code_simp
  then show ?thesis by (auto simp: is_ok_iff)
qed

text \<open>The policy of the configuration, and connections from a peer it knows.\<close>

definition ex_auth :: Authority where
  "ex_auth =
     (case BuildAuthorityPolicies (Some (ex_cfg [ex_def])) of
        Ok es \<Rightarrow> installPolicies es NewAuthority | _ \<Rightarrow> NewAuthority)"

definition ex_conn :: "bytes \<Rightarrow> Conn" where
  "ex_conn bs =
     \<lparr>incoming = \<lparr>pending = bs, final = EOF\<rparr>, sent = [], write_fate = [], closed = False,
      local_port = Some 502, remote_ip = Some ''127.0.0.1''\<rparr>"

text \<open>A request of a client, as \<open>ReadRequest\<close> returns it.\<close>

definition ex_request :: "u8 \<Rightarrow> bytes \<Rightarrow> Request" where
  "ex_request fc p =
     \<lparr>mb_Port = 502, TransactionID = 9, ProtocolID = 0, Length = of_nat (length p + 2),
      mb_UnitID = 1, FunctionCode = fc, Payload = p\<rparr>"

lemma ex_request_valid: "length p < 65534 \<Longrightarrow> request_valid 502 (ex_request fc p)"
  using unat_of_nat_u16 [of "length p + 2"]
  by (simp add: request_valid_def ex_request_def del: of_nat_add)

end
