(* ===== verification/AuthClaims.thy ===== *)
theory AuthClaims
  imports Examples
begin

text \<open>
  The properties of internal/authority: matchers, rules, evaluation and the sealing flags.
\<close>

section \<open>Matchers and rules\<close>

text \<open>C22: a matcher of IPv4 blocks accepts exactly the IPv4 addresses that agree with one of them on its
  leading bits; a block longer than 32 bits accepts nothing, and no IPv6 address is ever accepted.\<close>

theorem match_ipv4_blocks:
  "Match \<lparr>prefixes = map (\<lambda>(p, n). Prefix_Masked (PrefixFrom (AddrV4 p) n)) blocks\<rparr> src \<longleftrightarrow>
    (\<exists>a. src = AddrV4 a \<and> (\<exists>(p, n) \<in> set blocks. n \<le> 32 \<and>
      unat a div 2 ^ (32 - n) = unat p div 2 ^ (32 - n)))"
proof -
  have "Prefix_Contains (PrefixFrom (AddrV4 p) n) src \<longleftrightarrow>
      (\<exists>a. src = AddrV4 a \<and> n \<le> 32 \<and> unat a div 2 ^ (32 - n) = unat p div 2 ^ (32 - n))" for p n
    using keep_high_div [where 'a = 32, of n _ p]
    by (cases "n \<le> 32") (auto simp: PrefixFrom_def Contains_V4 Contains_invalid)
  then show ?thesis by (auto simp: Match_iff Addr_IsValid_def split_beta)
qed

text \<open>C21: a rule is accepted exactly when it has an identifier and every source item is blank, a CIDR
  block or an address; an accepted rule matches exactly the sources one of its items covers and
  allows exactly the listed function codes.\<close>

theorem rule_meaning:
  "(is_ok (NewRule rid ips fcs) \<longleftrightarrow> rid \<noteq> [] \<and> (\<forall>raw \<in> set ips. item_ok raw)) \<and>
   (NewRule rid ips fcs = Ok r \<longrightarrow>
     (Matches (Some r) src \<longleftrightarrow> Addr_IsValid src \<and> (\<exists>raw \<in> set ips. item_covers raw src)) \<and>
     (AllowsFC (Some r) fc \<longleftrightarrow> fc \<in> set fcs))"
  using NewRule_is_ok [of rid ips fcs] NewRule_meaning [of rid ips fcs r] by blast

theorem rule_meaning_witness:
  "\<exists>r. NewRule ''r'' ['' 10.0.0.0/8 '', ''''] [1, 3] = Ok r \<and>
    Matches (Some r) (AddrV4 0x0A000001) \<and> \<not> AllowsFC (Some r) 5"
proof -
  have "is_ok (NewRule ''r'' ['' 10.0.0.0/8 '', ''''] [1, 3])"
    "item_covers '' 10.0.0.0/8 '' (AddrV4 0x0A000001)" by code_simp+
  then show ?thesis
    using rule_meaning [of "''r''" "['' 10.0.0.0/8 '', '''']" "[1, 3]" _
        "AddrV4 0x0A000001" 5]
    by (auto simp: is_ok_iff Addr_IsValid_def)
qed

section \<open>Evaluation\<close>

text \<open>C20: the decision on a request, with its exception code and reason, on every branch: a sealed memory
  is Device Busy; otherwise the first rule that matches the source decides by its function codes,
  and without rules or without a match the request is denied as an illegal function.\<close>

theorem evaluate_first_match:
  "Evaluate a \<lparr>req_MemoryID = mid, req_SourceIP = src, req_FunctionCode = fc\<rparr> =
    (if IsSealed (sealing a) mid then Deny 6 ''state sealing enabled''
     else if rules_of a mid = [] then Deny 1 ''no access rules (default deny)''
     else case find (\<lambda>r. Matches r src) (rules_of a mid) of
       None \<Rightarrow> Deny 1 ''no rule matched (default deny)''
     | Some r \<Rightarrow> if AllowsFC r fc then Allow (''matched rule: '' @ rule_ID (the r))
         else Deny 1 (''rule matched but function code not allowed: '' @ rule_ID (the r)))"
proof -
  have ev: "Evaluate a \<lparr>req_MemoryID = mid, req_SourceIP = src, req_FunctionCode = fc\<rparr> =
    (if IsSealed (sealing a) mid then Deny ExceptionDeviceBusy ''state sealing enabled''
     else if rules_of a mid = [] then Deny ExceptionIllegalFunction ''no access rules (default deny)''
     else evaluate_rules (rules_of a mid) src fc)"
    by (auto simp: Evaluate_def rules_of_def Let_def split: option.splits)
  show ?thesis
  proof (cases "find (\<lambda>r. Matches r src) (rules_of a mid)")
    case None
    then show ?thesis
      by (simp add: ev evaluate_rules_None ExceptionDeviceBusy_def ExceptionIllegalFunction_def)
  next
    case (Some r)
    then have "Matches r src" by (simp add: find_Some_iff) blast
    then obtain r' where r: "r = Some r'" by (cases r) (simp_all add: Matches_def)
    from evaluate_rules_find [OF Some [unfolded r]] Some show ?thesis
      by (simp add: ev r ExceptionDeviceBusy_def ExceptionIllegalFunction_def)
  qed
qed

section \<open>Sealing flags\<close>

text \<open>After any sequence of flag settings a memory is sealed exactly when the last setting for it was
  on, or, with none, when it was sealed before; and a request is denied as Device Busy exactly
  when the flag of its memory is on, whatever the rules.\<close>

lemma sealing_last_setting:
  "IsSealed (fold (\<lambda>(mid, b) s. Ensure s mid b) es s) mid =
    (case map_of (rev es) mid of Some b \<Rightarrow> b | None \<Rightarrow> IsSealed s mid) \<and>
   (\<not> Allowed (Evaluate a req) \<and> ExceptionCode (Evaluate a req) = 6
     \<longleftrightarrow> IsSealed (sealing a) (req_MemoryID req))"
proof -
  have "IsSealed (fold (\<lambda>(mid, b) s. Ensure s mid b) es s) mid =
    (case map_of (rev es) mid of Some b \<Rightarrow> b | None \<Rightarrow> IsSealed s mid)"
    by (induction es arbitrary: s)
       (auto simp: IsSealed_def Ensure_def map_add_def split: option.splits)
  moreover have "\<not> Allowed (Evaluate a req) \<and> ExceptionCode (Evaluate a req) = 6
      \<longleftrightarrow> IsSealed (sealing a) (req_MemoryID req)"
  proof (cases "IsSealed (sealing a) (req_MemoryID req)")
    case True
    then have "\<not> Allowed (Evaluate a req)" by (simp add: Evaluate_allowed)
    from Evaluate_code [OF this] this True show ?thesis by (simp add: ExceptionDeviceBusy_def)
  next
    case False
    then have "ExceptionCode (Evaluate a req) = 1" if "\<not> Allowed (Evaluate a req)"
      using Evaluate_code [OF that] by (simp add: ExceptionIllegalFunction_def)
    with False show ?thesis by auto
  qed
  ultimately show ?thesis by blast
qed

end
