(* ===== verification/CellArea.thy ===== *)
theory CellArea
  imports MemRefine
begin

text \<open>
  The contract every memory area offers its clients (the Modbus handlers and raw ingest): a bounded
  array of cells at 16-bit addresses, written and read in runs. The contract's consequences are
  proved once, in the locale, and hold for the two bit areas and the two register areas by
  interpretation.
\<close>

section \<open>The interface\<close>

locale cell_area =
  fixes invar :: "'m \<Rightarrow> bool"
    and cells :: "'m \<Rightarrow> nat \<Rightarrow> 'v option"
    and wr :: "u16 \<Rightarrow> 'v list \<Rightarrow> 'm \<Rightarrow> 'm option"
    and rd :: "u16 \<Rightarrow> u16 \<Rightarrow> 'm \<Rightarrow> 'v list option"
  assumes wr_defined: "invar m \<Longrightarrow> wr a vs m \<noteq> None \<longleftrightarrow>
      vs \<noteq> [] \<and> length vs < 65536 \<and> (\<forall>k < length vs. cells m (unat a + k) \<noteq> None)"
    and wr_cells: "invar m \<Longrightarrow> wr a vs m = Some m' \<Longrightarrow>
      cells m' = (\<lambda>j. if unat a \<le> j \<and> j < unat a + length vs
                      then Some (vs ! (j - unat a)) else cells m j)"
    and wr_invar: "invar m \<Longrightarrow> wr a vs m = Some m' \<Longrightarrow> invar m'"
    and rd_value: "invar m \<Longrightarrow> rd a n m =
      (if n \<noteq> 0 \<and> (\<forall>k < unat n. cells m (unat a + k) \<noteq> None)
       then Some (map (\<lambda>k. the (cells m (unat a + k))) [0..<unat n]) else None)"
begin

lemma wr_dom:
  assumes "invar m" and "wr a vs m = Some m'"
  shows "cells m' j \<noteq> None \<longleftrightarrow> cells m j \<noteq> None"
proof -
  have "\<forall>k < length vs. cells m (unat a + k) \<noteq> None"
    using wr_defined [OF assms(1), of a vs] assms(2) by simp
  then show ?thesis
    using wr_cells [OF assms] by (auto dest: spec [of _ "j - unat a"])
qed

lemma read_back:
  assumes "invar m" and "wr a vs m = Some m'"
  shows "rd a (of_nat (length vs)) m' = Some vs"
proof -
  have vs: "vs \<noteq> []" "length vs < 65536"
    and defd: "\<forall>k < length vs. cells m (unat a + k) \<noteq> None"
    using wr_defined [OF assms(1), of a vs] assms(2) by simp_all
  then have n: "unat (of_nat (length vs) :: u16) = length vs"
    by (simp add: unat_of_nat)
  then have "(of_nat (length vs) :: u16) \<noteq> 0" using vs by (metis length_0_conv unat_0)
  moreover have "map (\<lambda>k. the (cells m' (unat a + k))) [0..<length vs] = vs"
    by (rule nth_equalityI) (simp_all add: wr_cells [OF assms])
  moreover have "\<forall>k < length vs. cells m' (unat a + k) \<noteq> None"
    by (simp add: wr_cells [OF assms])
  ultimately show ?thesis
    using n by (simp add: rd_value [OF wr_invar [OF assms]])
qed

lemma read_disjoint:
  assumes "invar m" and "wr a vs m = Some m'"
    and "unat b + unat n \<le> unat a \<or> unat a + length vs \<le> unat b"
  shows "rd b n m' = rd b n m"
proof -
  have "cells m' (unat b + k) = cells m (unat b + k)" if "k < unat n" for k
    using that assms(3) by (auto simp: wr_cells [OF assms(1,2)])
  then show ?thesis
    by (simp add: rd_value [OF wr_invar [OF assms(1,2)]] rd_value [OF assms(1)] cong: map_cong)
qed

lemma writes_commute:
  assumes "invar m" and "wr a vs m = Some m1" and "wr b ws m = Some m2"
    and "unat b + length ws \<le> unat a \<or> unat a + length vs \<le> unat b"
  shows "\<exists>m12 m21. wr b ws m1 = Some m12 \<and> wr a vs m2 = Some m21 \<and> cells m12 = cells m21"
proof -
  have i1: "invar m1" and i2: "invar m2" using wr_invar assms by blast+
  have "wr b ws m1 \<noteq> None"
    using wr_defined [OF i1, of b ws] wr_defined [OF assms(1), of b ws] assms(3)
      wr_dom [OF assms(1,2)] by simp
  then obtain m12 where 12: "wr b ws m1 = Some m12" by blast
  have "wr a vs m2 \<noteq> None"
    using wr_defined [OF i2, of a vs] wr_defined [OF assms(1), of a vs] assms(2)
      wr_dom [OF assms(1,3)] by simp
  then obtain m21 where 21: "wr a vs m2 = Some m21" by blast
  have "cells m12 = cells m21"
    using assms(4) by (auto simp: fun_eq_iff wr_cells [OF i1 12] wr_cells [OF i2 21]
        wr_cells [OF assms(1,2)] wr_cells [OF assms(1,3)])
  with 12 21 show ?thesis by blast
qed

lemma overwrite_last:
  assumes "invar m" and "wr a vs m = Some m1" and "length ws = length vs"
  shows "\<exists>m2 m3. wr a ws m1 = Some m2 \<and> wr a ws m = Some m3 \<and> cells m2 = cells m3"
proof -
  have i1: "invar m1" using wr_invar assms by blast
  have "vs \<noteq> []" "length vs < 65536" "\<forall>k < length vs. cells m (unat a + k) \<noteq> None"
    using wr_defined [OF assms(1), of a vs] assms(2) by simp_all
  then have "wr a ws m1 \<noteq> None" "wr a ws m \<noteq> None"
    using wr_defined [OF i1, of a ws] wr_defined [OF assms(1), of a ws] assms(3)
      wr_dom [OF assms(1,2)] by auto
  then obtain m2 m3 where 2: "wr a ws m1 = Some m2" and 3: "wr a ws m = Some m3" by blast
  have "cells m2 = cells m3"
    using assms(3) by (auto simp: fun_eq_iff wr_cells [OF i1 2] wr_cells [OF assms(1) 3]
        wr_cells [OF assms(1,2)])
  with 2 3 show ?thesis by blast
qed

end

section \<open>The four areas provide it\<close>

text \<open>Runs of bits and of registers as the transports pass them: packed, and in wire form.\<close>

definition wr_bits :: "Area \<Rightarrow> u16 \<Rightarrow> bool list \<Rightarrow> Memory \<Rightarrow> Memory option" where
  "wr_bits area a vs m =
     (if length vs < 65536 then
        (case WriteBits (Some m) area a (of_nat (length vs)) (pack_bits vs) of
           Ok m' \<Rightarrow> Some m' | _ \<Rightarrow> None)
      else None)"

definition rd_bits :: "Area \<Rightarrow> u16 \<Rightarrow> u16 \<Rightarrow> Memory \<Rightarrow> bool list option" where
  "rd_bits area a n m =
     (case ReadBits (Some m) area a n (replicate (bytesForBits n) 0) of
        Ok d \<Rightarrow> Some (map (bit_at d) [0..<unat n]) | _ \<Rightarrow> None)"

definition wr_regs :: "Area \<Rightarrow> u16 \<Rightarrow> u16 list \<Rightarrow> Memory \<Rightarrow> Memory option" where
  "wr_regs area a vs m =
     (if length vs < 65536 then
        (case WriteRegs (Some m) area a (of_nat (length vs)) (regs_bytes vs) of
           Ok m' \<Rightarrow> Some m' | _ \<Rightarrow> None)
      else None)"

definition rd_regs :: "Area \<Rightarrow> u16 \<Rightarrow> u16 \<Rightarrow> Memory \<Rightarrow> u16 list option" where
  "rd_regs area a n m =
     (case ReadRegs (Some m) area a n (replicate (unat n * 2) 0) of
        Ok d \<Rightarrow> Some (bytes_regs d) | _ \<Rightarrow> None)"

definition bit_cells :: "Area \<Rightarrow> Memory \<Rightarrow> nat \<Rightarrow> bool option" where
  "bit_cells area m a = (case cell_at m area a of Some (BitCell b) \<Rightarrow> Some b | _ \<Rightarrow> None)"

definition reg_cells :: "Area \<Rightarrow> Memory \<Rightarrow> nat \<Rightarrow> u16 option" where
  "reg_cells area m a = (case cell_at m area a of Some (RegCell r) \<Rightarrow> Some r | _ \<Rightarrow> None)"

lemma cell_at_bit_area: "IsBitArea area \<Longrightarrow> cell_at m area a = Some c \<Longrightarrow> \<exists>b. c = BitCell b"
  using bitBacking_None_iff [of m area]
  by (auto simp: cell_at_def split: option.splits if_splits)

lemma cell_at_reg_area: "IsRegArea area \<Longrightarrow> cell_at m area a = Some c \<Longrightarrow> \<exists>r. c = RegCell r"
  using bitBacking_None_iff [of m area] bit_reg_disjoint [of area]
  by (auto simp: cell_at_def split: option.splits if_splits)

lemma bit_cells_iff:
  "IsBitArea area \<Longrightarrow> bit_cells area m a = Some b \<longleftrightarrow> cell_at m area a = Some (BitCell b)"
  using cell_at_bit_area [of area m a] by (auto simp: bit_cells_def split: option.splits cell.splits)

lemma reg_cells_iff:
  "IsRegArea area \<Longrightarrow> reg_cells area m a = Some r \<longleftrightarrow> cell_at m area a = Some (RegCell r)"
  using cell_at_reg_area [of area m a] by (auto simp: reg_cells_def split: option.splits cell.splits)

lemma bit_cells_None: "IsBitArea area \<Longrightarrow> bit_cells area m a = None \<longleftrightarrow> cell_at m area a = None"
  using cell_at_bit_area [of area m a] by (auto simp: bit_cells_def split: option.splits cell.splits)

lemma reg_cells_None: "IsRegArea area \<Longrightarrow> reg_cells area m a = None \<longleftrightarrow> cell_at m area a = None"
  using cell_at_reg_area [of area m a] by (auto simp: reg_cells_def split: option.splits cell.splits)

lemma wr_bits_defined:
  assumes "IsBitArea area" and "backed_memory m"
  shows "wr_bits area a vs m \<noteq> None \<longleftrightarrow>
    vs \<noteq> [] \<and> length vs < 65536 \<and> (\<forall>k < length vs. bit_cells area m (unat a + k) \<noteq> None)"
proof (cases "length vs < 65536")
  case True
  have "bytesForBits (of_nat (length vs)) \<le> length (pack_bits vs)"
    using True bytesForBits_small [of "of_nat (length vs)"] bytesForBits_large [of "of_nat (length vs)"]
    by (cases "length vs < 65529") auto
  then have "is_ok (WriteBits (Some m) area a (of_nat (length vs)) (pack_bits vs)) \<longleftrightarrow>
      vs \<noteq> [] \<and> (\<forall>k < length vs. bit_cells area m (unat a + k) \<noteq> None)"
    using assms True by (auto simp: WriteBits_is_ok has_cells_def bit_cells_None)
  with True show ?thesis
    by (auto simp: wr_bits_def is_ok_iff split: outcome.splits)
qed (simp add: wr_bits_def)

lemma wr_bits_Some:
  assumes "wr_bits area a vs m = Some m'"
  shows "length vs < 65536"
    and "WriteBits (Some m) area a (of_nat (length vs)) (pack_bits vs) = Ok m'"
  using assms by (auto simp: wr_bits_def split: if_splits outcome.splits)

lemma wr_bits_cells:
  assumes "IsBitArea area" and "backed_memory m" and "wr_bits area a vs m = Some m'"
  shows "bit_cells area m' = (\<lambda>j. if unat a \<le> j \<and> j < unat a + length vs
                      then Some (vs ! (j - unat a)) else bit_cells area m j)"
  using WriteBits_effect(1) [OF assms(2) wr_bits_Some(2) [OF assms(3)]] wr_bits_Some(1) [OF assms(3)]
  by (auto simp: fun_eq_iff bit_cells_def upd_cells_def bit_at_pack_bits less_diff_conv2)

lemma rd_bits_value:
  assumes "IsBitArea area" and "backed_memory m"
  shows "rd_bits area a n m =
      (if n \<noteq> 0 \<and> (\<forall>k < unat n. bit_cells area m (unat a + k) \<noteq> None)
       then Some (map (\<lambda>k. the (bit_cells area m (unat a + k))) [0..<unat n]) else None)"
proof (cases "ReadBits (Some m) area a n (replicate (bytesForBits n) 0)")
  case (Ok d)
  then have "is_ok (ReadBits (Some m) area a n (replicate (bytesForBits n) 0))" by simp
  moreover have "bit_cells area m (unat a + k) = Some (bit_at d k)" if "k < unat n" for k
    using ReadBits_effect(2) [OF assms(2) Ok that] assms(1) by (simp add: bit_cells_iff)
  moreover from calculation(1) have "n \<noteq> 0" by (auto simp: ReadBits_is_ok)
  ultimately show ?thesis
    using Ok by (simp add: rd_bits_def)
next
  case (Err e)
  then have "\<not> is_ok (ReadBits (Some m) area a n (replicate (bytesForBits n) 0))" by simp
  then have "\<not> has_cells m area a n" using assms(1) by (simp add: ReadBits_is_ok)
  with Err assms(1) show ?thesis
    by (auto simp: has_cells_def rd_bits_def bit_cells_None)
qed (use ReadBits_no_panic [of "Some m" area a n] in \<open>metis no_panic_simps(3)\<close>)

lemma wr_regs_defined:
  assumes "IsRegArea area" and "wf_memory m"
  shows "wr_regs area a vs m \<noteq> None \<longleftrightarrow>
    vs \<noteq> [] \<and> length vs < 65536 \<and> (\<forall>k < length vs. reg_cells area m (unat a + k) \<noteq> None)"
proof (cases "length vs < 65536")
  case True
  then have "is_ok (WriteRegs (Some m) area a (of_nat (length vs)) (regs_bytes vs)) \<longleftrightarrow>
      vs \<noteq> [] \<and> (\<forall>k < length vs. reg_cells area m (unat a + k) \<noteq> None)"
    using assms by (auto simp: WriteRegs_is_ok has_cells_def reg_cells_None)
  with True show ?thesis
    by (auto simp: wr_regs_def is_ok_iff split: outcome.splits)
qed (simp add: wr_regs_def)

lemma wr_regs_Some:
  assumes "wr_regs area a vs m = Some m'"
  shows "length vs < 65536"
    and "WriteRegs (Some m) area a (of_nat (length vs)) (regs_bytes vs) = Ok m'"
  using assms by (auto simp: wr_regs_def split: if_splits outcome.splits)

lemma wr_regs_cells:
  assumes "IsRegArea area" and "wf_memory m" and "wr_regs area a vs m = Some m'"
  shows "reg_cells area m' = (\<lambda>j. if unat a \<le> j \<and> j < unat a + length vs
                      then Some (vs ! (j - unat a)) else reg_cells area m j)"
  using WriteRegs_effect(1) [OF assms(2) wr_regs_Some(2) [OF assms(3)]] wr_regs_Some(1) [OF assms(3)]
  by (auto simp: fun_eq_iff reg_cells_def upd_cells_def be16_regs_bytes less_diff_conv2)

lemma rd_regs_value:
  assumes "IsRegArea area" and "wf_memory m"
  shows "rd_regs area a n m =
      (if n \<noteq> 0 \<and> (\<forall>k < unat n. reg_cells area m (unat a + k) \<noteq> None)
       then Some (map (\<lambda>k. the (reg_cells area m (unat a + k))) [0..<unat n]) else None)"
proof (cases "ReadRegs (Some m) area a n (replicate (unat n * 2) 0)")
  case (Ok d)
  then have ok: "is_ok (ReadRegs (Some m) area a n (replicate (unat n * 2) 0))" by simp
  have len: "length d = unat n * 2" using ReadRegs_effect(1) [OF assms(2) Ok] by simp
  have "reg_cells area m (unat a + k) = Some (bytes_regs d ! k)" if "k < unat n" for k
    using ReadRegs_effect(2) [OF assms(2) Ok that] assms(1) that len
    by (simp add: reg_cells_iff nth_bytes_regs)
  then have "bytes_regs d = map (\<lambda>k. the (reg_cells area m (unat a + k))) [0..<unat n]"
    using len by (simp add: list_eq_iff_nth_eq)
  moreover have "n \<noteq> 0 \<and> (\<forall>k < unat n. reg_cells area m (unat a + k) \<noteq> None)"
    using ok assms by (auto simp: ReadRegs_is_ok has_cells_def reg_cells_None)
  ultimately show ?thesis
    using Ok by (simp add: rd_regs_def)
next
  case (Err e)
  then have "\<not> is_ok (ReadRegs (Some m) area a n (replicate (unat n * 2) 0))" by simp
  then have "\<not> has_cells m area a n" using assms by (simp add: ReadRegs_is_ok)
  with Err assms(1) show ?thesis
    by (auto simp: has_cells_def rd_regs_def reg_cells_None)
qed (use ReadRegs_no_panic [OF assms(2), of area a n] in \<open>metis no_panic_simps(3)\<close>)

interpretation coils: cell_area backed_memory "bit_cells AreaCoils" "wr_bits AreaCoils"
  "rd_bits AreaCoils"
  by unfold_locales (use wr_bits_defined wr_bits_cells rd_bits_value
      WriteBits_effect(2) [OF _ wr_bits_Some(2)] in \<open>auto simp: IsBitArea_def\<close>)

interpretation inputs: cell_area backed_memory "bit_cells AreaDiscreteInputs"
  "wr_bits AreaDiscreteInputs" "rd_bits AreaDiscreteInputs"
  by unfold_locales (use wr_bits_defined wr_bits_cells rd_bits_value
      WriteBits_effect(2) [OF _ wr_bits_Some(2)] in \<open>auto simp: IsBitArea_def\<close>)

interpretation holding: cell_area wf_memory "reg_cells AreaHoldingRegs"
  "wr_regs AreaHoldingRegs" "rd_regs AreaHoldingRegs"
  by unfold_locales (use wr_regs_defined wr_regs_cells rd_regs_value
      WriteRegs_effect(2) [OF _ wr_regs_Some(2)] in \<open>auto simp: IsRegArea_def\<close>)

interpretation input_regs: cell_area wf_memory "reg_cells AreaInputRegs"
  "wr_regs AreaInputRegs" "rd_regs AreaInputRegs"
  by unfold_locales (use wr_regs_defined wr_regs_cells rd_regs_value
      WriteRegs_effect(2) [OF _ wr_regs_Some(2)] in \<open>auto simp: IsRegArea_def\<close>)

end
