(* ===== verification/MemClaims.thy ===== *)
theory MemClaims
  imports Examples CellArea
begin

text \<open>
  The properties of internal/memorycore: bit packing, layouts, the bounded areas of a memory and the
  store.
\<close>

section \<open>Bits and layouts\<close>

text \<open>C28: both bit loops move exactly the requested run: bit \<open>k\<close> of the result of a read is bit
  \<open>start + k\<close> of the backing, a write puts bit \<open>k\<close> of the source at \<open>start + k\<close>, and every other bit
  keeps its value, at any alignment of the run inside the bytes.\<close>

theorem bit_runs_move:
  assumes "unat start + unat count \<le> 8 * length backing" and "unat start + unat count \<le> 65536"
    and "unat count \<le> 8 * length buf"
  shows "bit_at (copyBits buf backing start count) k =
      (if k < unat count then bit_at backing (unat start + k) else bit_at buf k) \<and>
    bit_at (writeBits backing start count buf) k =
      (if unat start \<le> k \<and> k < unat start + unat count then bit_at buf (k - unat start)
       else bit_at backing k)"
  using copyBits_bits [of start count backing buf k] writeBits_bits [of start count backing buf k] assms
  by auto

theorem bit_runs_move_witness:
  "bit_at (copyBits [0, 0] [0xA5, 0x0F, 0] 3 9) 2 = bit_at [0xA5, 0x0F, 0] 5 \<and>
   bit_at (writeBits [0xA5, 0x0F, 0] 3 9 [0, 0]) 2 = bit_at [0xA5, 0x0F, 0] 2"
  using bit_runs_move [of 3 9 "[0xA5, 0x0F, 0]" "[0, 0]" 2] by simp

text \<open>A layout that validates never wraps: a request inside it starts at or after its first address
  and ends at or before its end, its offset is the distance to the first address, and the run of
  the request fits in the area.\<close>

lemma layout_no_wrap:
  assumes "Layout_Validate l = None" and "Contains l address count"
  shows "unat (Start l) \<le> unat address \<and>
    unat address + unat count \<le> unat (Start l) + unat (Size l) \<and>
    unat address + unat count \<le> 65536 \<and>
    unat (Offset l address) = unat address - unat (Start l) \<and>
    unat (Offset l address) + unat count \<le> unat (Size l)"
  using assms Offset_range [OF assms(2)]
  by (simp add: Layout_Validate_iff Offset_unat [OF assms(2)])
     (simp add: Contains_iff lay_first_def lay_end_def)

section \<open>The areas of a memory\<close>

text \<open>C26: a bit access succeeds exactly when the area is a bit area, the run is not empty, every address of
  it has a cell and the buffer is large enough; a write that succeeds replaces exactly the cells of
  the run, in that area only, and keeps the invariant and the layouts; a read that succeeds returns
  the cells of the run.\<close>

theorem bit_access:
  assumes "backed_memory m"
  shows "(is_ok (ReadBits (Some m) area a n buf) \<longleftrightarrow>
      IsBitArea area \<and> has_cells m area a n \<and> bytesForBits n \<le> length buf) \<and>
    (is_ok (WriteBits (Some m) area a n buf) \<longleftrightarrow>
      IsBitArea area \<and> has_cells m area a n \<and> bytesForBits n \<le> length buf) \<and>
    (WriteBits (Some m) area a n buf = Ok m' \<longrightarrow>
      cell_at m' = upd_cells (cell_at m) area (unat a) (unat n) (\<lambda>k. BitCell (bit_at buf k)) \<and>
      backed_memory m' \<and> same_shape m m') \<and>
    (ReadBits (Some m) area a n buf = Ok d \<longrightarrow>
      (\<forall>k < unat n. cell_at m area (unat a + k) = Some (BitCell (bit_at d k))))"
  using WriteBits_effect [OF assms, of area a n buf m'] ReadBits_effect(2) [OF assms, of area a n buf d]
  by (simp add: ReadBits_is_ok WriteBits_is_ok)

theorem bit_access_witness:
  "is_ok (WriteBits (Some (ex_memory 1)) AreaCoils 3 2 [0x03]) \<and>
   has_cells (ex_memory 1) AreaCoils 3 2"
proof -
  have "is_ok (WriteBits (Some (ex_memory 1)) AreaCoils 3 2 [0x03])" by code_simp
  then show ?thesis
    using bit_access [OF ex_memory_backed, of 1 AreaCoils 3 2 "[0x03]" "ex_memory 1" "[]"] by blast
qed

text \<open>C27: the same for registers, on every well-formed memory, with two bytes per register, most
  significant first.\<close>

theorem register_access:
  assumes "wf_memory m"
  shows "(is_ok (ReadRegs (Some m) area a n buf) \<longleftrightarrow>
      IsRegArea area \<and> has_cells m area a n \<and> unat n * 2 \<le> length buf) \<and>
    (is_ok (WriteRegs (Some m) area a n buf) \<longleftrightarrow>
      IsRegArea area \<and> has_cells m area a n \<and> unat n * 2 \<le> length buf) \<and>
    (WriteRegs (Some m) area a n buf = Ok m' \<longrightarrow>
      cell_at m' = upd_cells (cell_at m) area (unat a) (unat n) (\<lambda>k. RegCell (be16 buf (2 * k))) \<and>
      wf_memory m' \<and> same_shape m m') \<and>
    (ReadRegs (Some m) area a n buf = Ok d \<longrightarrow>
      (\<forall>k < unat n. cell_at m area (unat a + k) = Some (RegCell (be16 d (2 * k)))))"
  using WriteRegs_effect [OF assms, of area a n buf m'] ReadRegs_effect(2) [OF assms, of area a n buf d]
  by (simp add: ReadRegs_is_ok [OF assms] WriteRegs_is_ok [OF assms])

theorem register_access_witness:
  "is_ok (WriteRegs (Some (ex_memory 1)) AreaHoldingRegs 2 2 [0, 1, 0, 2]) \<and>
   has_cells (ex_memory 1) AreaHoldingRegs 2 2"
proof -
  have "is_ok (WriteRegs (Some (ex_memory 1)) AreaHoldingRegs 2 2 [0, 1, 0, 2])" by code_simp
  then show ?thesis
    using register_access [OF ex_memory_wf, of 1 AreaHoldingRegs 2 2 "[0, 1, 0, 2]" "ex_memory 1" "[]"]
    by blast
qed



lemma wr_regs_raw:
  "length vs < 65536 \<Longrightarrow>
    wr_regs area a vs m = Some m' \<longleftrightarrow> WriteRegs (Some m) area a (of_nat (length vs)) (regs_bytes vs) = Ok m'"
  by (auto simp: wr_regs_def split: outcome.splits)

text \<open>Two accepted register writes to runs that do not overlap can be made in either order: both
  orders succeed and leave the same registers.\<close>

lemma disjoint_writes_commute:
  assumes "wf_memory m" and "length vs < 65536" and "length ws < 65536"
    and "WriteRegs (Some m) AreaHoldingRegs a (of_nat (length vs)) (regs_bytes vs) = Ok m1"
    and "WriteRegs (Some m) AreaHoldingRegs b (of_nat (length ws)) (regs_bytes ws) = Ok m2"
    and "unat b + length ws \<le> unat a \<or> unat a + length vs \<le> unat b"
  shows "\<exists>m12 m21.
    WriteRegs (Some m1) AreaHoldingRegs b (of_nat (length ws)) (regs_bytes ws) = Ok m12 \<and>
    WriteRegs (Some m2) AreaHoldingRegs a (of_nat (length vs)) (regs_bytes vs) = Ok m21 \<and>
    cell_at m12 AreaHoldingRegs = cell_at m21 AreaHoldingRegs"
proof -
  have "cell_at x AreaHoldingRegs = cell_at y AreaHoldingRegs"
    if "reg_cells AreaHoldingRegs x = reg_cells AreaHoldingRegs y" for x y
  proof
    fix j
    have r: "IsRegArea AreaHoldingRegs" by simp
    show "cell_at x AreaHoldingRegs j = cell_at y AreaHoldingRegs j"
    proof (cases "reg_cells AreaHoldingRegs x j")
      case None
      then have "reg_cells AreaHoldingRegs y j = None" using fun_cong [OF that, of j] by simp
      with None show ?thesis by (simp add: reg_cells_None [OF r])
    next
      case (Some v)
      then have "reg_cells AreaHoldingRegs y j = Some v" using fun_cong [OF that, of j] by simp
      with Some show ?thesis by (simp add: reg_cells_iff [OF r])
    qed
  qed
  note cells = this
  from assms(2-5) have w: "wr_regs AreaHoldingRegs a vs m = Some m1"
    "wr_regs AreaHoldingRegs b ws m = Some m2" by (simp_all add: wr_regs_raw)
  from holding.writes_commute [OF assms(1) w assms(6)] obtain m12 m21 where
    "wr_regs AreaHoldingRegs b ws m1 = Some m12" "wr_regs AreaHoldingRegs a vs m2 = Some m21"
    "reg_cells AreaHoldingRegs m12 = reg_cells AreaHoldingRegs m21" by blast
  with cells [of m12 m21] assms(2,3) show ?thesis by (auto simp: wr_regs_raw)
qed

text \<open>C31: the constructor succeeds exactly when every given layout validates; the memory it returns is
  well formed, has no sealing bit, and has a zero cell at exactly the addresses of the given
  layouts.\<close>

theorem new_memory:
  "(is_ok (NewMemory ls) \<longleftrightarrow> layouts_valid ls) \<and> NewMemory ls \<noteq> Panic \<and>
   (NewMemory ls = Ok m \<longrightarrow> wf_memory m \<and> stateSealing m = None \<and>
      (\<forall>area a c. cell_at m area a = Some c \<longrightarrow> c = BitCell False \<or> c = RegCell 0) \<and>
      (\<forall>a. (cell_at m AreaCoils a \<noteq> None) = (case Coils ls of None \<Rightarrow> False | Some l \<Rightarrow> in_window l a)) \<and>
      (\<forall>a. (cell_at m AreaDiscreteInputs a \<noteq> None)
        = (case DiscreteInputs ls of None \<Rightarrow> False | Some l \<Rightarrow> in_window l a)) \<and>
      (\<forall>a. (cell_at m AreaHoldingRegs a \<noteq> None)
        = (case HoldingRegs ls of None \<Rightarrow> False | Some l \<Rightarrow> in_window l a)) \<and>
      (\<forall>a. (cell_at m AreaInputRegs a \<noteq> None)
        = (case InputRegs ls of None \<Rightarrow> False | Some l \<Rightarrow> in_window l a)))"
proof -
  have "NewMemory ls \<noteq> Panic" using NewMemory_no_panic [of ls] by auto
  moreover have "wf_memory m \<and> stateSealing m = None \<and>
      (\<forall>area a c. cell_at m area a = Some c \<longrightarrow> c = BitCell False \<or> c = RegCell 0) \<and>
      (\<forall>a. (cell_at m AreaCoils a \<noteq> None) = (case Coils ls of None \<Rightarrow> False | Some l \<Rightarrow> in_window l a)) \<and>
      (\<forall>a. (cell_at m AreaDiscreteInputs a \<noteq> None)
        = (case DiscreteInputs ls of None \<Rightarrow> False | Some l \<Rightarrow> in_window l a)) \<and>
      (\<forall>a. (cell_at m AreaHoldingRegs a \<noteq> None)
        = (case HoldingRegs ls of None \<Rightarrow> False | Some l \<Rightarrow> in_window l a)) \<and>
      (\<forall>a. (cell_at m AreaInputRegs a \<noteq> None)
        = (case InputRegs ls of None \<Rightarrow> False | Some l \<Rightarrow> in_window l a))"
    if "NewMemory ls = Ok m"
    using NewMemory_shape(1-6) [OF that] NewMemory_cells_zero [OF that]
    by (intro conjI allI impI) (auto simp: cell_at_def bitBacking_def regBacking_def split: option.splits)
  ultimately show ?thesis by (simp add: NewMemory_is_ok)
qed

theorem new_memory_witness:
  "\<exists>m. NewMemory \<lparr>Coils = Some \<lparr>Start = 8, Size = 3\<rparr>, DiscreteInputs = None, HoldingRegs = None,
      InputRegs = None\<rparr> = Ok m \<and> wf_memory m \<and> cell_at m AreaCoils 10 \<noteq> None \<and>
    cell_at m AreaCoils 11 = None"
proof -
  let ?ls = "\<lparr>Coils = Some \<lparr>Start = 8, Size = 3\<rparr>, DiscreteInputs = None, HoldingRegs = None,
      InputRegs = None\<rparr>"
  have "is_ok (NewMemory ?ls)" by code_simp
  then obtain m where m: "NewMemory ?ls = Ok m" by (auto simp: is_ok_iff)
  with new_memory [of ?ls m] have
    "wf_memory m" "cell_at m AreaCoils 10 \<noteq> None" "\<not> cell_at m AreaCoils 11 \<noteq> None"
    by (simp_all add: in_window_def lay_first_def lay_end_def)
  with m show ?thesis by auto
qed

text \<open>C35: a coil area of 65529 bits or more is accepted but has no backing bytes: every write to it is
  acknowledged and changes nothing, and every read returns the caller's buffer unchanged.\<close>

theorem large_bit_area_is_inert:
  assumes "NewMemory ls = Ok m" and "Coils ls = Some l" and "65529 \<le> unat (Size l)"
    and "Contains l a n"
  shows "coilsBits m = [] \<and>
    (bytesForBits n \<le> length buf \<longrightarrow>
      WriteBits (Some m) AreaCoils a n buf = Ok m \<and> ReadBits (Some m) AreaCoils a n buf = Ok buf)"
proof -
  note sh = NewMemory_shape [OF assms(1)]
  from sh(1,6) assms(2,3) have none: "coilsBits m = []"
    by (simp add: wf_memory_def wf_bits_def bytesForBits_large)
  moreover have "n \<noteq> 0" using assms(4) by (auto simp: Contains_iff)
  moreover have "storeBits m AreaCoils [] = m" using none by (simp add: storeBits_def)
  ultimately show ?thesis
    using assms(2,4) sh(1) by (simp add: WriteBits_def ReadBits_def bitBacking_def Let_def)
qed

theorem large_bit_area_is_inert_witness:
  "\<exists>m. NewMemory \<lparr>Coils = Some \<lparr>Start = 0, Size = 65535\<rparr>, DiscreteInputs = None,
      HoldingRegs = None, InputRegs = None\<rparr> = Ok m \<and>
    WriteBits (Some m) AreaCoils 0 8 [0xFF] = Ok m \<and> ReadBits (Some m) AreaCoils 0 8 [0] = Ok [0]"
proof -
  let ?ls = "\<lparr>Coils = Some \<lparr>Start = 0, Size = 65535\<rparr>, DiscreteInputs = None,
      HoldingRegs = None, InputRegs = None\<rparr>"
  have "is_ok (NewMemory ?ls)" by code_simp
  then obtain m where m: "NewMemory ?ls = Ok m" by (auto simp: is_ok_iff)
  have c: "Contains \<lparr>Start = 0, Size = 65535\<rparr> 0 8" by code_simp
  have l: "bytesForBits 8 \<le> length [x]" for x :: u8 by (simp add: bytesForBits_def)
  have "65529 \<le> unat (Size \<lparr>Start = 0, Size = 65535\<rparr>)" by simp
  from large_bit_area_is_inert [OF m _ this c, of "[0xFF]"]
    large_bit_area_is_inert [OF m _ this c, of "[0]"] l m show ?thesis by auto
qed

section \<open>The store\<close>

text \<open>C32: registering an instance under a valid identity makes that identity resolve to it and leaves
  every other identity as it was; an identity with port 0 or unit 0, or a nil pointer, is refused.\<close>

theorem store_add_get:
  "(is_ok (Add (Some s) mid mem) \<longleftrightarrow> Port mid \<noteq> 0 \<and> UnitID mid \<noteq> 0 \<and> mem \<noteq> None) \<and>
   (Add (Some s) mid mem = Ok s' \<longrightarrow>
      Get (Some s') j = (if j = mid then (mem, True) else Get (Some s) j) \<and>
      MustGet (Some s') j = (if j = mid then Ok mem else MustGet (Some s) j))"
  by (auto simp: Add_def Get_def MustGet_def MemoryID_Validate_def split: option.splits)

theorem store_add_get_witness:
  "\<exists>s'. Add (Some NewStore) ex_id (Some 3) = Ok s' \<and> Get (Some s') ex_id = (Some 3, True) \<and>
    Get (Some s') \<lparr>Port = 502, UnitID = 2\<rparr> = (None, False)"
proof -
  have "is_ok (Add (Some NewStore) ex_id (Some 3))" by code_simp
  then obtain s' where s': "Add (Some NewStore) ex_id (Some 3) = Ok s'" by (auto simp: is_ok_iff)
  with store_add_get [of NewStore ex_id "Some 3" s' ex_id]
    store_add_get [of NewStore ex_id "Some 3" s' "\<lparr>Port = 502, UnitID = 2\<rparr>"]
  show ?thesis by (auto simp: ex_id_def Get_def NewStore_def)
qed

text \<open>In a well-formed store no two identities share an instance: writing through the pointer of one
  identity changes what that identity resolves to and nothing else.\<close>

lemma store_no_aliasing:
  assumes "wf_store h s" and "MustGet (Some s) mid = Ok (Some r)" and "wf_memory m"
  shows "wf_store (heap_put h r m) s \<and>
    memory_of (heap_put h r m) s j = (if j = mid then Some m else memory_of h s j)"
  using assms wf_store_put memory_of_put by (auto simp: MustGet_simp split: option.splits)

end
