(* ===== verification/Sessions.thy ===== *)
theory Sessions
  imports ModbusConn RawIngestSpec
begin

text \<open>
  What a client sees of its connection, as a specification on the abstract appliance: a Modbus session
  is a fold of commands behind the sealing bit and the rules, a raw ingest session a fold of writes.
\<close>

section \<open>The specification\<close>

type_synonym seal_map = "MemoryID \<Rightarrow> StateSealingDef option"

definition sealed_in :: "seal_map \<Rightarrow> appliance \<Rightarrow> MemoryID \<Rightarrow> bool" where
  "sealed_in sd A mid \<longleftrightarrow>
     (case (sd mid, A mid) of
        (Some d, Some f) \<Rightarrow> f (seal_Area d) (unat (seal_Address d)) \<noteq> Some (BitCell True)
      | _ \<Rightarrow> False)"

definition request_spec ::
  "seal_map \<Rightarrow> Authority \<Rightarrow> Addr \<Rightarrow> appliance \<Rightarrow> Request \<Rightarrow> appliance \<times> bytes" where
  "request_spec sd auth src A q =
     (if sealed_in sd A (memory_id q) then (A, BuildExceptionPDU (FunctionCode q) 6)
      else if \<not> Allowed (Evaluate auth (auth_request q src)) then
        (A, BuildExceptionPDU (FunctionCode q) (ExceptionCode (Evaluate auth (auth_request q src))))
      else
        (case exec_command A (memory_id q) (command_of (FunctionCode q) (Payload q)) of
           (A', res) \<Rightarrow> (A', reply_wire (FunctionCode q) (Payload q) res)))"

fun session_spec ::
  "seal_map \<Rightarrow> Authority \<Rightarrow> Addr \<Rightarrow> appliance \<Rightarrow> Request list \<Rightarrow> appliance \<times> bytes list" where
  "session_spec sd auth src A [] = (A, [])"
| "session_spec sd auth src A (q # qs) =
     (case request_spec sd auth src A q of (A', pdu) \<Rightarrow>
      (case session_spec sd auth src A' qs of (A'', frames) \<Rightarrow>
         (A'', BuildResponse q pdu # frames)))"

section \<open>Modbus sessions\<close>

definition seals :: "Heap \<Rightarrow> Store \<Rightarrow> seal_map" where
  "seals h s mid = Option.bind (memory_of h s mid) stateSealing"

lemma sealed_in_iff:
  "sealed_in (seals h s) (abs_store h s) mid \<longleftrightarrow>
    (case memory_of h s mid of None \<Rightarrow> False | Some m \<Rightarrow> is_sealed m)"
  by (simp add: sealed_in_def seals_def abs_store_def is_sealed_def split: option.splits)

lemma memory_of_defined: "wf_store h s \<Longrightarrow> memory_of h s mid = None \<longleftrightarrow> store_data s mid = None"
  by (auto simp: memory_of_def split: option.splits elim: wf_storeD)

lemma touches_seals:
  assumes "touches h s mid h'" and "wf_store h s"
  shows "seals h' s = seals h s"
proof
  fix j
  show "seals h' s j = seals h s j"
  proof (cases "j = mid")
    case True
    show ?thesis
    proof (cases "memory_of h s mid")
      case None
      with memory_of_defined [OF assms(2)] memory_of_defined [OF touches_wf [OF assms(1)]]
      have "memory_of h' s mid = None" by simp
      with None True show ?thesis by (simp add: seals_def)
    qed (use assms(1) True in \<open>auto simp: touches_def seals_def same_shape_def\<close>)
  qed (use touches_other [OF assms(1)] in \<open>simp add: seals_def\<close>)
qed

lemma serve_refines:
  assumes "backed_store h s"
  shows "\<exists>h' r. serve h (Some s) auth src q = Some (h', r) \<and> backed_store h' s \<and>
    seals h' s = seals h s \<and>
    request_spec (seals h s) auth src (abs_store h s) q = (abs_store h' s, reply_pdu r)"
proof -
  from assms have wf: "wf_store h s" by (simp add: backed_store_def)
  show ?thesis
  proof (rule serve_cases [OF wf, of auth src q])
    assume n: "\<not> admitted h s auth src q"
      and r: "serve h (Some s) auth src q = Some (h, Refused (refusal h s auth src q))"
    from n have "request_spec (seals h s) auth src (abs_store h s) q
        = (abs_store h s, refusal h s auth src q)"
      by (auto simp: request_spec_def sealed_in_iff refusal_def admitted_def split: option.splits)
    with r assms show ?thesis by auto
  next
    fix h' pdu
    assume a: "admitted h s auth src q" and d: "DispatchMemory h (Some s) q = Some (h', pdu)"
      and v: "serve h (Some s) auth src q = Some (h', Served pdu)" and t: "touches h s (memory_id q) h'"
    from dispatch_implements [OF assms, of q] d obtain res where
      ex: "exec_command (abs_store h s) (memory_id q) (command_of (FunctionCode q) (Payload q))
        = (abs_store h' s, res)" "pdu = reply_wire (FunctionCode q) (Payload q) res"
      by (auto simp: implements_def)
    from a have "\<not> sealed_in (seals h s) (abs_store h s) (memory_id q)"
      "Allowed (Evaluate auth (auth_request q src))"
      by (auto simp: sealed_in_iff admitted_def split: option.splits)
    with ex have "request_spec (seals h s) auth src (abs_store h s) q = (abs_store h' s, pdu)"
      by (simp add: request_spec_def)
    with v touches_backed [OF assms t] touches_seals [OF t wf] show ?thesis by auto
  qed
qed

lemma serve_all_refines:
  assumes "backed_store h s" and "serve_all h (Some s) auth src qs = Some (h', frames)"
  shows "session_spec (seals h s) auth src (abs_store h s) qs = (abs_store h' s, frames)"
  using assms
proof (induction qs arbitrary: h frames)
  case (Cons q qs)
  from serve_refines [OF Cons.prems(1), of auth src q] obtain h1 r where
    1: "serve h (Some s) auth src q = Some (h1, r)" "backed_store h1 s" "seals h1 s = seals h s"
      "request_spec (seals h s) auth src (abs_store h s) q = (abs_store h1 s, reply_pdu r)" by blast
  from Cons.prems(2) 1(1) obtain fs where "serve_all h1 (Some s) auth src qs = Some (h', fs)"
    "frames = BuildResponse q (reply_pdu r) # fs" by auto
  with Cons.IH [OF 1(2)] 1(3,4) show ?case by simp
qed simp

section \<open>Raw ingest sessions\<close>

fun ingest_spec :: "appliance \<Rightarrow> Packet list \<Rightarrow> appliance \<times> u8 list" where
  "ingest_spec A [] = (A, [])"
| "ingest_spec A (p # ps) =
     (case exec_command A (packet_id p) (packet_command p) of (A', res) \<Rightarrow>
      (case ingest_spec A' ps of (A'', sts) \<Rightarrow> (A'', status_of res # sts)))"

lemma apply_all_refines:
  assumes "backed_store h s" and "\<forall>p \<in> set ps. packet_valid port p"
    and "apply_all h (Some s) ps = Some (h', sts)"
  shows "ingest_spec (abs_store h s) ps = (abs_store h' s, sts)"
  using assms
proof (induction ps arbitrary: h sts)
  case (Cons p ps)
  from Cons.prems(2) have "packet_valid port p" by simp
  from apply_packet_implements [OF Cons.prems(1) this] obtain h1 res where
    1: "exec_command (abs_store h s) (packet_id p) (packet_command p) = (abs_store h1 s, res)"
      "apply_packet h (Some s) p = Some (h1, status_of res)" "backed_store h1 s" by blast
  from Cons.prems(3) 1(2) obtain ss where "apply_all h1 (Some s) ps = Some (h', ss)"
    "sts = status_of res # ss" by auto
  with Cons.IH [OF 1(3)] Cons.prems(2) 1(1) show ?case by simp
qed simp

end
