(* ===== verification/ModbusClaims.thy ===== *)
theory ModbusClaims
  imports Examples Sessions
begin

text \<open>
  The properties of the Modbus transport: framing, the dispatcher against the abstract appliance,
  confinement, sealing, access control and the connection loop.
\<close>

section \<open>The dispatcher\<close>

text \<open>C1: on every store whose bit areas are backed, dispatching a request has exactly the effect and
  the reply of the abstract command the request denotes (reads return the cells, writes replace
  them, anything malformed, unknown or out of bounds is rejected without effect).\<close>

theorem modbus_dispatch_refines:
  assumes "backed_store h s"
  shows "\<exists>h' res.
    DispatchMemory h (Some s) req = Some (h', reply_wire (FunctionCode req) (Payload req) res) \<and>
    exec_command (abs_store h s) (memory_id req) (command_of (FunctionCode req) (Payload req))
      = (abs_store h' s, res) \<and>
    backed_store h' s"
  using dispatch_implements [OF assms, of req] unfolding implements_def by blast

theorem modbus_dispatch_refines_witness:
  "\<exists>h' res.
    DispatchMemory (ex_heap 1) (Some ex_store) (ex_request 3 (read_payload 0 2))
      = Some (h', reply_wire 3 (read_payload 0 2) res) \<and>
    exec_command (abs_store (ex_heap 1) ex_store) ex_id (ReadCells AreaHoldingRegs 0 2)
      = (abs_store h' ex_store, res) \<and>
    backed_store h' ex_store"
  using modbus_dispatch_refines [OF ex_store_backed, of 1 "ex_request 3 (read_payload 0 2)"]
  by (simp add: ex_request_def memory_id_def ex_id_def command_of_def read_command_def)



lemma write_then_read:
  assumes "backed_store h s"
    and w: "FunctionCode wr = 16" "Payload wr = write_payload addr n (regs_bytes vs)"
      "unat n = length vs" "length vs \<le> 127"
    and r: "FunctionCode rd = 3" "Payload rd = read_payload addr n" "memory_id rd = memory_id wr"
    and ack: "DispatchMemory h (Some s) wr = Some (h', 16 # read_payload addr n)"
  shows "\<exists>h''. DispatchMemory h' (Some s) rd = Some (h'', 3 # of_nat (2 * length vs) # regs_bytes vs)"
proof -
  let ?A = "abs_store h s" and ?mid = "memory_id wr"
  have dec: "DecodeWriteMultiple (Payload wr) = Ok \<lparr>wm_Address = addr, wm_Quantity = n, wm_Values = vs\<rparr>"
    using w by (simp add: DecodeWriteMultiple_iff)
  from dispatch_implements [OF assms(1), of wr] ack obtain A' res where
    ex: "exec_command ?A ?mid (command_of 16 (Payload wr)) = (A', res)"
    and rep: "reply_wire 16 (Payload wr) res = 16 # read_payload addr n"
    and A': "abs_store h' s = A'" and b': "backed_store h' s"
    by (auto simp: implements_def w(1))
  from ex dec have "res = Ack \<or> (\<exists>c. res = Exception c)"
    by (auto simp: command_of_def split: option.splits if_splits)
  with rep have res: "res = Ack" by auto
  have n0: "n \<noteq> 0"
  proof
    assume "n = 0"
    with ex res dec show False by (simp add: command_of_def)
  qed
  have cmd: "command_of 16 (Payload wr) = WriteCells AreaHoldingRegs addr (map RegCell vs)"
    using dec n0 w(3) by (simp add: command_of_def)
  from ex res obtain f where f: "?A ?mid = Some f" "defined_run f AreaHoldingRegs (unat addr) (length vs)"
    "A' = ?A(?mid \<mapsto> upd_cells f AreaHoldingRegs (unat addr) (length vs) ((!) (map RegCell vs)))"
    by (auto simp: cmd split: option.splits if_splits)
  let ?f' = "upd_cells f AreaHoldingRegs (unat addr) (length vs) ((!) (map RegCell vs))"
  have def': "defined_run ?f' AreaHoldingRegs (unat addr) (unat n)"
    using f(2) w(3) by (simp add: defined_run_def upd_cells_def list_all_iff)
  have run: "run_of ?f' AreaHoldingRegs (unat addr) (unat n) = map RegCell vs"
    by (rule nth_equalityI) (simp_all add: run_of_def upd_cells_def w(3))
  have rcmd: "command_of 3 (Payload rd) = ReadCells AreaHoldingRegs addr n"
    using r n0 by (simp add: command_of_def read_command_def)
  from dispatch_implements [OF b', of rd, unfolded implements_def r(1,3) A'] obtain h'' A'' res' where
    ex': "exec_command A' ?mid (command_of 3 (Payload rd)) = (A'', res')"
    and d': "DispatchMemory h' (Some s) rd = Some (h'', reply_wire 3 (Payload rd) res')"
    by blast
  have "res' = Cells (map RegCell vs)"
    using ex' def' run by (simp add: rcmd f(3))
  with d' show ?thesis by (simp add: cells_wire_def comp_def)
qed

text \<open>C30: registers written with function code 16 and acknowledged are read back with function code 3
  in the same state: the reply carries the byte count and exactly the values written.\<close>

theorem modbus_write_then_read:
  assumes "backed_store h s" and "unat n = length vs" and "length vs \<le> 127"
    and "FunctionCode wr = 16" and "Payload wr = write_payload addr n (regs_bytes vs)"
    and "FunctionCode rd = 3" and "Payload rd = read_payload addr n" and "memory_id rd = memory_id wr"
    and "DispatchMemory h (Some s) wr = Some (h', 16 # read_payload addr n)"
  shows "\<exists>h''. DispatchMemory h' (Some s) rd = Some (h'', 3 # of_nat (2 * length vs) # regs_bytes vs)"
  by (rule write_then_read [OF assms(1,4,5,2,3,6,7,8,9)])

lemma ex_write_ack:
  "map_option snd (DispatchMemory (ex_heap 1) (Some ex_store)
     (ex_request 16 (write_payload 0 2 (regs_bytes [5, 6])))) = Some (16 # read_payload 0 2)"
  by code_simp

theorem modbus_write_then_read_witness:
  "\<exists>h' h''. DispatchMemory (ex_heap 1) (Some ex_store)
      (ex_request 16 (write_payload 0 2 (regs_bytes [5, 6]))) = Some (h', 16 # read_payload 0 2) \<and>
    DispatchMemory h' (Some ex_store) (ex_request 3 (read_payload 0 2)) = Some (h'', [3, 4, 0, 5, 0, 6])"
proof -
  from ex_write_ack obtain h' where h': "DispatchMemory (ex_heap 1) (Some ex_store)
      (ex_request 16 (write_payload 0 2 (regs_bytes [5, 6]))) = Some (h', 16 # read_payload 0 2)"
    by auto
  have "\<exists>h''. DispatchMemory h' (Some ex_store) (ex_request 3 (read_payload 0 2))
      = Some (h'', 3 # of_nat (2 * length [5, 6 :: u16]) # regs_bytes [5, 6])"
    by (rule modbus_write_then_read [OF ex_store_backed _ _ _ _ _ _ _ h'])
       (simp_all add: ex_request_def memory_id_def)
  with h' show ?thesis by (simp add: be16_bytes_def)
qed




section \<open>The wire\<close>

text \<open>C23: a request survives the wire: whatever follows it in the stream, the parser returns exactly the
  request and leaves exactly what follows; and a successful parse consumed exactly one request.\<close>

theorem modbus_request_roundtrip:
  "(request_valid port q \<longrightarrow>
     ReadRequest port \<lparr>pending = request_wire q @ rest, final = x\<rparr> = (Ok q, \<lparr>pending = rest, final = x\<rparr>)) \<and>
   (ReadRequest port r = (Ok q', r') \<longrightarrow>
     request_valid port q' \<and> pending r = request_wire q' @ pending r' \<and> final r' = final r)"
  using modbus_frames.decode_wire [of port q rest x] modbus_frames.decode_sound [of port r q' r'] by blast

theorem modbus_request_roundtrip_witness:
  "ReadRequest 502 \<lparr>pending = request_wire (ex_request 3 (read_payload 0 2)) @ [7], final = EOF\<rparr>
    = (Ok (ex_request 3 (read_payload 0 2)), \<lparr>pending = [7], final = EOF\<rparr>) \<and>
   request_valid 502 (ex_request 3 (read_payload 0 2))"
  using modbus_request_roundtrip [of 502 "ex_request 3 (read_payload 0 2)" "[7]" EOF
      "\<lparr>pending = request_wire (ex_request 3 (read_payload 0 2)) @ [7], final = EOF\<rparr>"
      "ex_request 3 (read_payload 0 2)" "\<lparr>pending = [7], final = EOF\<rparr>"]
    ex_request_valid [of "read_payload 0 2" 3]
  by simp

text \<open>C33: a reply shorter than 65535 bytes is itself a well-formed frame: a client that parses it gets
  the transaction, protocol and unit identifiers of its request and exactly the PDU, and is
  positioned at the next reply.\<close>

theorem modbus_response_readable:
  assumes "pdu \<noteq> []" and "length pdu < 65535"
  shows "ReadRequest port \<lparr>pending = BuildResponse req pdu @ rest, final = x\<rparr> =
    (Ok \<lparr>mb_Port = port, TransactionID = TransactionID req, ProtocolID = ProtocolID req,
         Length = of_nat (length pdu + 1), mb_UnitID = mb_UnitID req,
         FunctionCode = hd pdu, Payload = tl pdu\<rparr>, \<lparr>pending = rest, final = x\<rparr>)"
proof -
  let ?q = "\<lparr>mb_Port = port, TransactionID = TransactionID req, ProtocolID = ProtocolID req,
         Length = of_nat (length pdu + 1), mb_UnitID = mb_UnitID req,
         FunctionCode = hd pdu, Payload = tl pdu\<rparr>"
  have "request_valid port ?q"
    using assms unat_of_nat_u16 [of "length pdu + 1"]
    by (simp add: request_valid_def Suc_leI del: of_nat_add)
  moreover have "BuildResponse req pdu = request_wire ?q"
    using assms(1) by (simp add: BuildResponse_eq request_wire_def)
  ultimately show ?thesis using modbus_frames.decode_wire [of port ?q rest x] by simp
qed

theorem modbus_response_readable_witness:
  "ReadRequest 502 \<lparr>pending = BuildResponse (ex_request 3 []) [3, 2, 0, 7] @ [], final = EOF\<rparr> =
    (Ok \<lparr>mb_Port = 502, TransactionID = 9, ProtocolID = 0, Length = 5, mb_UnitID = 1,
         FunctionCode = 3, Payload = [2, 0, 7]\<rparr>, \<lparr>pending = [], final = EOF\<rparr>)"
  using modbus_response_readable [of "[3, 2, 0, 7]" 502 "ex_request 3 []" "[]" EOF]
  by (simp add: ex_request_def)

text \<open>The two decoders of multiple writes accept exactly the well-formed payloads: address,
  quantity, a byte count equal to the number of data bytes, for registers an even one (at most 127
  registers), for coils the one the quantity calls for.\<close>

lemma modbus_write_payloads:
  "(DecodeWriteMultiple p = Ok d \<longleftrightarrow> length (wm_Values d) \<le> 127 \<and>
      p = write_payload (wm_Address d) (wm_Quantity d) (regs_bytes (wm_Values d))) \<and>
   (DecodeWriteMultipleBits p = Ok b \<longleftrightarrow> length (wb_Data b) \<le> 255 \<and>
      length (wb_Data b) = bytesForBits (wb_Quantity b) \<and>
      p = write_payload (wb_Address b) (wb_Quantity b) (wb_Data b))"
  using DecodeWriteMultiple_iff [of p d] DecodeWriteMultipleBits_iff [of p b]
  by (simp add: bytesForBits_def)

section \<open>The connection\<close>

text \<open>A connection on which a client sends any sequence of well-formed requests and then closes gets
  exactly one reply frame per request, in order, each built from its own request, and the final
  state is the one of serving the requests one after the other.\<close>

lemma modbus_connection_replies:
  assumes "wf_store h s" and "writable conn" and "\<forall>q \<in> set qs. request_valid (of_nat p) q"
    and "incoming conn = \<lparr>pending = concat (map request_wire qs), final = x\<rparr>"
    and "local_port conn = Some p" and "remote_ip conn = Some ip" and "ParseAddr ip = Some src"
  shows "\<exists>h' frames conn'. serve_all h (Some s) auth src qs = Some (h', frames) \<and>
    length frames = length qs \<and>
    mb_HandleConn h (Some s) auth conn = Some (h', conn') \<and>
    sent conn' = sent conn @ frames \<and> closed conn' \<and> pending (incoming conn') = []"
  using modbus_loop_frames [OF assms(1-4), of auth src] assms(5-7)
  by (auto simp: mb_HandleConn_def conn_close_def)



text \<open>A memory that is sealed when a Modbus connection starts is the same when it ends, whatever
  bytes the client sends: Modbus cannot unseal a memory.\<close>

lemma sealed_memory_frozen:
  assumes "wf_store h s" and "memory_of h s mid = Some m" and "is_sealed m"
  shows "\<exists>h' conn'. mb_HandleConn h (Some s) auth conn = Some (h', conn') \<and>
    memory_of h' s mid = Some m"
proof -
  have "memory_of h' s mid = Some m"
    if "wf_store h s" "memory_of h s mid = Some m" "serve h (Some s) auth src q = Some (h', r)"
    for h h' q r src
    using that assms(3) serve_keeps [OF that(1,3)] touches_other [of h s "memory_id q" h' mid]
    by (cases "memory_id q = mid") (auto simp: admitted_def)
  with HandleConn_invariant [OF assms(1), of "\<lambda>h. memory_of h s mid = Some m" conn auth] assms(2)
  show ?thesis by blast
qed

end
