(* ===== verification/RawIngestClaims.thy ===== *)
theory RawIngestClaims
  imports Examples Sessions
begin

text \<open>
  The properties of the raw ingest protocol.
\<close>

text \<open>A packet as a client encodes it.\<close>

definition ex_packet :: "Area \<Rightarrow> u16 \<Rightarrow> u16 \<Rightarrow> bytes \<Rightarrow> Packet" where
  "ex_packet area a n p =
     \<lparr>pk_Port = 502, pk_UnitID = 1, pk_Area = area, pk_Address = a, pk_Count = n, pk_Payload = p\<rparr>"



text \<open>C12: on a store whose bit areas are backed, a packet is exactly one abstract write of the cells it
  carries, and its status byte says whether the write was carried out.\<close>

theorem raw_packet_refines:
  assumes "backed_store h s" and "packet_valid port pkt"
  shows "\<exists>h' res. apply_packet h (Some s) pkt = Some (h', if res = Ack then 0 else 1) \<and>
    exec_command (abs_store h s) (packet_id pkt)
      (WriteCells (pk_Area pkt) (pk_Address pkt) (packet_cells pkt)) = (abs_store h' s, res) \<and>
    backed_store h' s"
  using apply_packet_implements [OF assms]
  by (auto simp: packet_command_def status_of_def RespOK_def RespRejected_def split: if_splits)

theorem raw_packet_refines_witness:
  "\<exists>h' res. apply_packet (ex_heap 0) (Some ex_store) (ex_packet AreaCoils 0 1 [1])
      = Some (h', if res = Ack then 0 else 1) \<and>
    exec_command (abs_store (ex_heap 0) ex_store) ex_id (WriteCells AreaCoils 0 [BitCell True])
      = (abs_store h' ex_store, res)"
proof -
  have "packet_valid 502 (ex_packet AreaCoils 0 1 [1])" by code_simp
  note refines = raw_packet_refines [OF ex_store_backed this, of 0]
  have "packet_id (ex_packet AreaCoils 0 1 [1]) = ex_id"
    "packet_cells (ex_packet AreaCoils 0 1 [1]) = [BitCell True]"
    "pk_Area (ex_packet AreaCoils 0 1 [1]) = AreaCoils" "pk_Address (ex_packet AreaCoils 0 1 [1]) = 0"
    by (simp_all add: ex_packet_def packet_id_def ex_id_def packet_cells_def bit_run_def bit_at_def)
  from refines [unfolded this] show ?thesis by blast
qed

text \<open>C25: on a store whose bit areas are backed, a client that sends any sequence of valid packets and closes
  gets exactly one status byte per packet, in order, and nothing else; the bytes and the cells left
  behind are those of executing the write of each packet on the abstract appliance in order.\<close>

theorem raw_connection_replies:
  assumes "backed_store h s" and "writable conn" and "\<forall>p \<in> set ps. packet_valid (of_nat lp) p"
    and "incoming conn = \<lparr>pending = concat (map packet_wire ps), final = EOF\<rparr>"
    and "local_port conn = Some lp"
  shows "\<exists>h' sts conn'. raw_HandleConn h (Some s) conn = Some (h', conn') \<and>
    sent conn' = sent conn @ map (\<lambda>st. [st]) sts \<and> length sts = length ps \<and> closed conn' \<and>
    ingest_spec (abs_store h s) ps = (abs_store h' s, sts)"
proof -
  have "wf_store h s" using assms(1) by (simp add: backed_store_def)
  from raw_loop_frames [OF this assms(2-4)] obtain h' sts where
    "apply_all h (Some s) ps = Some (h', sts)" "length sts = length ps"
    "raw_loop (Some s) (of_nat lp) h conn = Some (h', conn
      \<lparr>incoming := \<lparr>pending = [], final = EOF\<rparr>, sent := sent conn @ map (\<lambda>st. [st]) sts,
       write_fate := drop (length ps) (write_fate conn)\<rparr>)" by blast
  with apply_all_refines [OF assms(1,3)] assms(5) show ?thesis
    by (auto simp: raw_HandleConn_def conn_close_def)
qed

theorem raw_connection_replies_witness:
  "\<exists>h' sts conn'.
    raw_HandleConn (ex_heap 0) (Some ex_store) (ex_conn (packet_wire (ex_packet AreaCoils 0 1 [1])
      @ packet_wire (ex_packet AreaCoils 90 1 [1]))) = Some (h', conn') \<and>
    sent conn' = map (\<lambda>st. [st]) sts \<and> length sts = 2 \<and> closed conn' \<and>
    ingest_spec (abs_store (ex_heap 0) ex_store)
      [ex_packet AreaCoils 0 1 [1], ex_packet AreaCoils 90 1 [1]] = (abs_store h' ex_store, sts)"
proof -
  have "packet_valid 502 (ex_packet AreaCoils 0 1 [1])" "packet_valid 502 (ex_packet AreaCoils 90 1 [1])"
    by code_simp+
  then show ?thesis
    using raw_connection_replies [OF ex_store_backed, of "ex_conn (packet_wire (ex_packet AreaCoils 0 1 [1])
      @ packet_wire (ex_packet AreaCoils 90 1 [1]))"
      "[ex_packet AreaCoils 0 1 [1], ex_packet AreaCoils 90 1 [1]]" 502 0]
    by (auto simp: ex_conn_def writable_def simp flip: numeral_2_eq_2)
qed

text \<open>Raw ingest can unseal: on a backed store, a packet that sets the sealing bit of a sealed memory
  is accepted and leaves the memory unsealed.\<close>

lemma raw_ingest_unseals:
  assumes "backed_store h s" and "memory_of h s mid = Some m"
    and "stateSealing m = Some \<lparr>seal_Area = AreaCoils, seal_Address = a\<rparr>"
    and "cell_at m AreaCoils (unat a) \<noteq> None"
    and "pkt = \<lparr>pk_Port = Port mid, pk_UnitID = UnitID mid, pk_Area = AreaCoils, pk_Address = a,
      pk_Count = 1, pk_Payload = [1]\<rparr>"
  shows "\<exists>h' m'. apply_packet h (Some s) pkt = Some (h', 0) \<and> memory_of h' s mid = Some m' \<and>
    \<not> is_sealed m'"
proof -
  have id: "packet_id pkt = mid" by (simp add: assms(5) packet_id_def)
  have v: "packet_valid (Port mid) pkt"
    by (simp add: assms(5) packet_valid_def payloadLen_def)
  have cells: "packet_cells pkt = [BitCell True]"
    by (simp add: assms(5) packet_cells_def bit_run_def bit_at_def)
  from apply_packet_implements [OF assms(1) v] obtain h' A' res where
    ex: "exec_command (abs_store h s) mid (packet_command pkt) = (A', res)"
    and ap: "apply_packet h (Some s) pkt = Some (h', status_of res)"
    and A': "abs_store h' s = A'" unfolding id by blast
  have cmd: "packet_command pkt = WriteCells AreaCoils a [BitCell True]"
    by (simp add: packet_command_def cells) (simp add: assms(5))
  have "defined_run (cell_at m) AreaCoils (unat a) 1" using assms(4) by (simp add: defined_run_def)
  with ex have res: "res = Ack" and A'': "A' = (abs_store h s)(mid \<mapsto>
      upd_cells (cell_at m) AreaCoils (unat a) 1 ((!) [BitCell True]))"
    by (simp_all add: cmd assms(2) abs_store_def)
  have "map_option cell_at (memory_of h' s mid)
      = Some (upd_cells (cell_at m) AreaCoils (unat a) 1 ((!) [BitCell True]))"
    using fun_cong [OF A', of mid] by (simp add: abs_store_def A'')
  then obtain m' where m': "memory_of h' s mid = Some m'"
    "cell_at m' = upd_cells (cell_at m) AreaCoils (unat a) 1 ((!) [BitCell True])" by auto
  from assms(1) have "wf_store h s" by (simp add: backed_store_def)
  from apply_packet_safe [OF this, of pkt] ap m'(1) assms(2) id have "same_shape m m'"
    by (auto simp: touches_def)
  with assms(3) m' have "\<not> is_sealed m'"
    by (simp add: is_sealed_def same_shape_def upd_cells_def)
  with ap m'(1) res show ?thesis by (simp add: status_of_def RespOK_def)
qed

end
