(* ===== verification/RawV1.thy ===== *)
theory RawV1
  imports GoIo
begin

text \<open>
  internal/transport/raw: the first version of raw ingest, with its own frame format and a connection
  loop that stops at the first error. Nothing in the program starts it, and the package that would
  provide the memories (internal/runtime) is not in the repository: the two interfaces of types.go
  are parameters of the model.
\<close>

section \<open>Constants and types (constants.go, errors.go, header\_v1.go, types.go)\<close>

text \<open>\<open>ErrRejected\<close> and the error of a failing \<open>Write\<close>.\<close>

datatype raw1_error = ErrRejected | WriteFailed

type_synonym MemoryArea = "8 word"

definition RawMagic :: u16 where "RawMagic = 0xA55A"
definition RawVerV1 :: u8 where "RawVerV1 = 0x01"
definition RawHeaderV1Size :: nat where "RawHeaderV1Size = 14"
definition RawAreaCoils :: MemoryArea where "RawAreaCoils = 0x01"
definition RawAreaDiscreteInputs :: MemoryArea where "RawAreaDiscreteInputs = 0x02"
definition RawAreaHoldingRegs :: MemoryArea where "RawAreaHoldingRegs = 0x03"
definition RawAreaInputRegs :: MemoryArea where "RawAreaInputRegs = 0x04"
definition StatusOK :: u8 where "StatusOK = 0x00"
definition StatusError :: u8 where "StatusError = 0x01"

text \<open>Constants of constants.go that nothing uses: they describe another header.\<close>

definition magic0 :: u8 where "magic0 = 0x52"
definition magic1 :: u8 where "magic1 = 0x49"
definition protocolVersionV1 :: u8 where "protocolVersionV1 = 0x01"
definition v1HeaderSize :: nat where "v1HeaderSize = 12"
definition crcSize :: nat where "crcSize = 4"
definition ResponseOK :: u8 where "ResponseOK = 0x00"
definition ResponseRejected :: u8 where "ResponseRejected = 0x01"

lemmas raw_area_defs = RawAreaCoils_def RawAreaDiscreteInputs_def RawAreaHoldingRegs_def
  RawAreaInputRegs_def

record v1Header =
  h_Magic :: u16
  h_Version :: u8
  h_Flags :: u8
  h_Area :: MemoryArea
  h_Rsv :: u8
  h_UnitID :: u16
  h_Port :: u16
  h_Address :: u16
  h_Count :: u16

record frame =
  f_Header :: v1Header
  f_Payload :: bytes

text \<open>
  \<open>RawWritableMemory\<close> and \<open>MemoryResolver\<close>: a resolver from unit identifiers to memories \<open>'r\<close> and the
  four writes of a memory, acting on a state \<open>'w\<close>.
\<close>

record ('w, 'r) RawBackend =
  ResolveMemoryByID :: "'w \<Rightarrow> u16 \<Rightarrow> 'r option"
  WriteCoils :: "'r \<Rightarrow> u16 \<Rightarrow> bool list \<Rightarrow> 'w \<Rightarrow> (unit, 'w) outcome"
  WriteDiscreteInputs :: "'r \<Rightarrow> u16 \<Rightarrow> bool list \<Rightarrow> 'w \<Rightarrow> (unit, 'w) outcome"
  WriteHoldingRegisters :: "'r \<Rightarrow> u16 \<Rightarrow> u16 list \<Rightarrow> 'w \<Rightarrow> (unit, 'w) outcome"
  WriteInputRegisters :: "'r \<Rightarrow> u16 \<Rightarrow> u16 list \<Rightarrow> 'w \<Rightarrow> (unit, 'w) outcome"

section \<open>Payload alignment (align\_bits.go, align\_regs.go, sizing.go)\<close>

function alignBits_loop ::
  "bytes \<Rightarrow> nat \<Rightarrow> nat \<Rightarrow> bool list \<Rightarrow> (raw1_error, bool list) outcome" where
  "alignBits_loop payload n i out =
     (if i < n then
        let byteIndex = i div 8;
            bitIndex = i mod 8
        in if byteIndex \<ge> length payload then Err ErrRejected
           else alignBits_loop payload n (i + 1)
                  (out[i := (payload ! byteIndex AND push_bit bitIndex 1 \<noteq> 0)])
      else Ok out)"
  by pat_completeness auto
termination
  by (relation "measure (\<lambda>(payload, n, i, out). n - i)") auto

declare alignBits_loop.simps [simp del]

definition alignBits :: "bytes \<Rightarrow> u16 \<Rightarrow> (raw1_error, bool list) outcome" where
  "alignBits payload count =
     (let n = unat count in alignBits_loop payload n 0 (replicate n False))"

function alignRegs_loop :: "bytes \<Rightarrow> nat \<Rightarrow> nat \<Rightarrow> u16 list \<Rightarrow> u16 list" where
  "alignRegs_loop payload n i out =
     (if i < n then alignRegs_loop payload n (i + 1) (out[i := be16 payload (i * 2)]) else out)"
  by pat_completeness auto
termination
  by (relation "measure (\<lambda>(payload, n, i, out). n - i)") auto

declare alignRegs_loop.simps [simp del]

definition alignRegs :: "bytes \<Rightarrow> u16 \<Rightarrow> (raw1_error, u16 list) outcome" where
  "alignRegs payload count =
     (let n = unat count in
      if length payload \<noteq> n * 2 then Err ErrRejected
      else Ok (alignRegs_loop payload n 0 (replicate n 0)))"

definition payloadSize :: "MemoryArea \<Rightarrow> u16 \<Rightarrow> (raw1_error, nat) outcome" where
  "payloadSize area count =
     (if area = RawAreaCoils \<or> area = RawAreaDiscreteInputs then Ok (unat ((count + 7) div 8))
      else if area = RawAreaHoldingRegs \<or> area = RawAreaInputRegs then Ok (unat count * 2)
      else Err ErrRejected)"

section \<open>Frames (header\_v1.go, conn\_reader.go)\<close>

definition parseV1Header :: "bytes \<Rightarrow> (raw1_error, v1Header) outcome" where
  "parseV1Header buf =
     (if length buf \<noteq> RawHeaderV1Size then Err ErrRejected
      else
        let h = \<lparr>h_Magic = be16 buf 0, h_Version = buf ! 2, h_Flags = buf ! 3, h_Area = buf ! 4,
                 h_Rsv = buf ! 5, h_UnitID = be16 buf 6, h_Port = be16 buf 8,
                 h_Address = be16 buf 10, h_Count = be16 buf 12\<rparr>
        in if h_Magic h \<noteq> RawMagic then Err ErrRejected
           else if h_Version h \<noteq> RawVerV1 then Err ErrRejected
           else if h_Area h \<notin> {RawAreaCoils, RawAreaDiscreteInputs, RawAreaHoldingRegs,
                  RawAreaInputRegs} then Err ErrRejected
           else if h_Count h = 0 then Err ErrRejected
           else Ok h)"

definition readExact :: "Reader \<Rightarrow> nat \<Rightarrow> (io_error, bytes) outcome \<times> Reader" where
  "readExact r n = ReadFull r n"

definition readFrame :: "int \<Rightarrow> Reader \<Rightarrow> (raw1_error, frame) outcome \<times> Reader" where
  "readFrame maxPacketBytes r =
     (if maxPacketBytes \<le> int RawHeaderV1Size then (Err ErrRejected, r)
      else
        (case readExact r RawHeaderV1Size of
           (Err _, r1) \<Rightarrow> (Err ErrRejected, r1)
         | (Panic, r1) \<Rightarrow> (Panic, r1)
         | (Ok hdr, r1) \<Rightarrow>
             (case parseV1Header hdr of
                Err _ \<Rightarrow> (Err ErrRejected, r1)
              | Panic \<Rightarrow> (Panic, r1)
              | Ok h \<Rightarrow>
                  (case payloadSize (h_Area h) (h_Count h) of
                     Err _ \<Rightarrow> (Err ErrRejected, r1)
                   | Panic \<Rightarrow> (Panic, r1)
                   | Ok pLen \<Rightarrow>
                       if int (RawHeaderV1Size + pLen) > maxPacketBytes then (Err ErrRejected, r1)
                       else
                         (case readExact r1 pLen of
                            (Err _, r2) \<Rightarrow> (Err ErrRejected, r2)
                          | (Panic, r2) \<Rightarrow> (Panic, r2)
                          | (Ok payload, r2) \<Rightarrow>
                              (Ok \<lparr>f_Header = h, f_Payload = payload\<rparr>, r2))))))"

definition frame_wire :: "frame \<Rightarrow> bytes" where
  "frame_wire f =
     (let h = f_Header f in
      be16_bytes (h_Magic h) @ [h_Version h, h_Flags h, h_Area h, h_Rsv h]
        @ be16_bytes (h_UnitID h) @ be16_bytes (h_Port h) @ be16_bytes (h_Address h)
        @ be16_bytes (h_Count h) @ f_Payload f)"

definition frame_valid :: "int \<Rightarrow> frame \<Rightarrow> bool" where
  "frame_valid maxPacketBytes f \<longleftrightarrow>
     (let h = f_Header f in
      h_Magic h = RawMagic \<and> h_Version h = RawVerV1 \<and> h_Count h \<noteq> 0 \<and>
      payloadSize (h_Area h) (h_Count h) = Ok (length (f_Payload f)) \<and>
      int RawHeaderV1Size < maxPacketBytes \<and>
      int (RawHeaderV1Size + length (f_Payload f)) \<le> maxPacketBytes)"

section \<open>What alignment computes\<close>

lemma alignBits_loop_eq:
  assumes "i \<le> n" and "length out = n"
  shows "alignBits_loop payload n i out =
    (if n \<le> 8 * length payload \<or> i = n
     then Ok (take i out @ map (bit_at payload) [i..<n]) else Err ErrRejected)"
  using assms
proof (induction payload n i out rule: alignBits_loop.induct)
  case (1 payload n i out)
  note loop = alignBits_loop.simps [of payload n i out]
  show ?case
  proof (cases "i < n")
    case True
    show ?thesis
    proof (cases "i div 8 < length payload")
      case in_range: True
      let ?b = "payload ! (i div 8) AND push_bit (i mod 8) 1 \<noteq> 0"
      have b: "?b = bit_at payload i"
        using in_range by (simp add: bit_at_def and_exp_eq_0_iff_not_bit)
      have "take (Suc i) (out[i := ?b]) = take i out @ [bit_at payload i]"
        unfolding b using True "1.prems" by (simp add: take_Suc_conv_app_nth)
      moreover have "[i..<n] = i # [Suc i..<n]" using True by (simp add: upt_conv_Cons)
      moreover have "Suc i = n \<Longrightarrow> n \<le> 8 * length payload" using in_range by linarith
      ultimately show ?thesis
        using 1(1) [of "i div 8" "i mod 8"] True in_range "1.prems"
        by (auto simp: loop Let_def)
    next
      case False
      then have "\<not> n \<le> 8 * length payload" using True by linarith
      with True False show ?thesis by (simp add: loop Let_def)
    qed
  next
    case False
    with "1.prems" show ?thesis by (subst loop) simp
  qed
qed

lemma alignBits_eq:
  "alignBits payload count =
    (if unat count \<le> 8 * length payload
     then Ok (map (bit_at payload) [0..<unat count]) else Err ErrRejected)"
  using alignBits_loop_eq [of 0 "unat count" "replicate (unat count) False" payload]
  by (auto simp: alignBits_def)

lemma alignRegs_loop_eq:
  assumes "i \<le> n" and "length out = n"
  shows "alignRegs_loop payload n i out = take i out @ map (\<lambda>k. be16 payload (2 * k)) [i..<n]"
  using assms
proof (induction payload n i out rule: alignRegs_loop.induct)
  case (1 payload n i out)
  note loop = alignRegs_loop.simps [of payload n i out]
  show ?case
  proof (cases "i < n")
    case True
    then have "[i..<n] = i # [Suc i..<n]" by (simp add: upt_conv_Cons)
    moreover have "take (Suc i) (out[i := be16 payload (i * 2)]) = take i out @ [be16 payload (2 * i)]"
      using True "1.prems" by (simp add: take_Suc_conv_app_nth mult.commute)
    ultimately show ?thesis using True "1.IH" "1.prems" by (simp add: loop)
  next
    case False
    with "1.prems" show ?thesis by (subst loop) simp
  qed
qed

lemma alignRegs_eq:
  "alignRegs payload count =
    (if length payload = 2 * unat count then Ok (bytes_regs payload) else Err ErrRejected)"
  using alignRegs_loop_eq [of 0 "unat count" "replicate (unat count) 0" payload]
  by (auto simp: alignRegs_def Let_def list_eq_iff_nth_eq nth_bytes_regs)

section \<open>Frames on the wire\<close>

lemma list14:
  assumes "length bs = 14"
  shows "bs = be16_bytes (be16 bs 0) @ [bs ! 2, bs ! 3, bs ! 4, bs ! 5] @ be16_bytes (be16 bs 6)
    @ be16_bytes (be16 bs 8) @ be16_bytes (be16 bs 10) @ be16_bytes (be16 bs 12)"
proof -
  have "bs = [bs ! 0, bs ! 1, bs ! 2, bs ! 3, bs ! 4, bs ! 5, bs ! 6, bs ! 7, bs ! 8, bs ! 9,
      bs ! 10, bs ! 11, bs ! 12, bs ! 13]"
    using assms by (auto simp: numeral_eq_Suc length_Suc_conv)
  moreover have "be16_bytes (be16 bs 0) = [bs ! 0, bs ! 1]" "be16_bytes (be16 bs 6) = [bs ! 6, bs ! 7]"
    "be16_bytes (be16 bs 8) = [bs ! 8, bs ! 9]" "be16_bytes (be16 bs 10) = [bs ! 10, bs ! 11]"
    "be16_bytes (be16 bs 12) = [bs ! 12, bs ! 13]"
    using assms by (simp_all add: be16_bytes_be16)
  ultimately show ?thesis by simp
qed

definition header_wire :: "v1Header \<Rightarrow> bytes" where
  "header_wire h =
     be16_bytes (h_Magic h) @ [h_Version h, h_Flags h, h_Area h, h_Rsv h]
       @ be16_bytes (h_UnitID h) @ be16_bytes (h_Port h) @ be16_bytes (h_Address h)
       @ be16_bytes (h_Count h)"

definition header_valid :: "v1Header \<Rightarrow> bool" where
  "header_valid h \<longleftrightarrow> h_Magic h = RawMagic \<and> h_Version h = RawVerV1 \<and> h_Count h \<noteq> 0 \<and>
     h_Area h \<in> {RawAreaCoils, RawAreaDiscreteInputs, RawAreaHoldingRegs, RawAreaInputRegs}"

lemma frame_wire_eq: "frame_wire f = header_wire (f_Header f) @ f_Payload f"
  by (simp add: frame_wire_def header_wire_def Let_def)

lemma length_header_wire [simp]: "length (header_wire h) = 14"
  by (simp add: header_wire_def)

lemma payloadSize_ok: "payloadSize area count = Ok n \<Longrightarrow>
    area \<in> {RawAreaCoils, RawAreaDiscreteInputs, RawAreaHoldingRegs, RawAreaInputRegs}"
  by (auto simp: payloadSize_def split: if_splits)

lemma parseV1Header_wire: "header_valid h \<Longrightarrow> parseV1Header (header_wire h) = Ok h"
proof -
  assume v: "header_valid h"
  have "header_wire h ! 2 = h_Version h" "header_wire h ! 3 = h_Flags h" "header_wire h ! 4 = h_Area h"
    "header_wire h ! 5 = h_Rsv h" "be16 (header_wire h) 0 = h_Magic h"
    "be16 (header_wire h) 6 = h_UnitID h" "be16 (header_wire h) 8 = h_Port h"
    "be16 (header_wire h) 10 = h_Address h" "be16 (header_wire h) 12 = h_Count h"
    by (simp_all add: header_wire_def be16_def be16_bytes_def)
  with v show ?thesis
    by (simp add: parseV1Header_def header_valid_def RawHeaderV1Size_def Let_def)
qed

lemma parseV1Header_sound:
  assumes "parseV1Header buf = Ok h"
  shows "header_valid h \<and> buf = header_wire h"
proof -
  from assms have l: "length buf = 14"
    and h: "h = \<lparr>h_Magic = be16 buf 0, h_Version = buf ! 2, h_Flags = buf ! 3, h_Area = buf ! 4,
                 h_Rsv = buf ! 5, h_UnitID = be16 buf 6, h_Port = be16 buf 8,
                 h_Address = be16 buf 10, h_Count = be16 buf 12\<rparr>"
    and v: "header_valid h"
    by (auto simp: parseV1Header_def header_valid_def RawHeaderV1Size_def Let_def split: if_splits)
  from list14 [OF l] have "buf = header_wire h" by (simp add: header_wire_def h)
  with v show ?thesis by blast
qed

interpretation raw1_frames: frame_decoder "readFrame m" frame_wire "frame_valid m" for m
proof (unfold_locales, goal_cases)
  case (1 f rest x)
  let ?h = "f_Header f" and ?p = "f_Payload f"
  from 1 have size: "payloadSize (h_Area ?h) (h_Count ?h) = Ok (length ?p)"
    and v: "header_valid ?h"
    using payloadSize_ok by (auto simp: frame_valid_def header_valid_def Let_def)
  have r1: "readExact \<lparr>pending = header_wire ?h @ ?p @ rest, final = x\<rparr> RawHeaderV1Size
      = (Ok (header_wire ?h), \<lparr>pending = ?p @ rest, final = x\<rparr>)"
    unfolding readExact_def by (rule ReadFull_append) (simp add: RawHeaderV1Size_def)
  have r2: "readExact \<lparr>pending = ?p @ rest, final = x\<rparr> (length ?p)
      = (Ok ?p, \<lparr>pending = rest, final = x\<rparr>)"
    unfolding readExact_def by (rule ReadFull_append) simp
  from 1 show ?case
    by (simp add: readFrame_def frame_wire_eq r1 r2 parseV1Header_wire [OF v] size frame_valid_def Let_def)
next
  case (2 r f r')
  then obtain hdr r1 h n p where m: "int RawHeaderV1Size < m"
    and 1: "ReadFull r RawHeaderV1Size = (Ok hdr, r1)" and h: "parseV1Header hdr = Ok h"
    and n: "payloadSize (h_Area h) (h_Count h) = Ok n" "int (RawHeaderV1Size + n) \<le> m"
    and 2: "ReadFull r1 n = (Ok p, r')" and f: "f = \<lparr>f_Header = h, f_Payload = p\<rparr>"
    by (auto simp: readFrame_def readExact_def split: prod.splits outcome.splits if_splits)
  from parseV1Header_sound [OF h] m n 1 2 show ?case
    by (auto simp: ReadFull_ok_iff frame_valid_def frame_wire_eq f header_valid_def Let_def)
qed (simp add: frame_wire_eq header_wire_def)

section \<open>The loop (ingest\_loop.go, conn\_writer.go)\<close>

definition writeOK :: "Conn \<Rightarrow> bool \<times> Conn" where
  "writeOK w = conn_write w [StatusOK]"

definition writeRejected :: "Conn \<Rightarrow> bool \<times> Conn" where
  "writeRejected w = conn_write w [StatusError]"

text \<open>The switch over the area: align the payload, then write it.\<close>

definition applyFrame ::
  "('w, 'r) RawBackend \<Rightarrow> 'r \<Rightarrow> frame \<Rightarrow> 'w \<Rightarrow> (raw1_error, 'w) outcome" where
  "applyFrame b mem f w =
     (let h = f_Header f;
          checked = \<lambda>res. (case res of Ok w' \<Rightarrow> Ok w' | Err (_ :: unit) \<Rightarrow> Err ErrRejected | Panic \<Rightarrow> Panic)
      in if h_Area h = RawAreaCoils then
           (case alignBits (f_Payload f) (h_Count h) of
              Err _ \<Rightarrow> Err ErrRejected | Panic \<Rightarrow> Panic
            | Ok vs \<Rightarrow> checked (WriteCoils b mem (h_Address h) vs w))
         else if h_Area h = RawAreaDiscreteInputs then
           (case alignBits (f_Payload f) (h_Count h) of
              Err _ \<Rightarrow> Err ErrRejected | Panic \<Rightarrow> Panic
            | Ok vs \<Rightarrow> checked (WriteDiscreteInputs b mem (h_Address h) vs w))
         else if h_Area h = RawAreaHoldingRegs then
           (case alignRegs (f_Payload f) (h_Count h) of
              Err _ \<Rightarrow> Err ErrRejected | Panic \<Rightarrow> Panic
            | Ok vs \<Rightarrow> checked (WriteHoldingRegisters b mem (h_Address h) vs w))
         else if h_Area h = RawAreaInputRegs then
           (case alignRegs (f_Payload f) (h_Count h) of
              Err _ \<Rightarrow> Err ErrRejected | Panic \<Rightarrow> Panic
            | Ok vs \<Rightarrow> checked (WriteInputRegisters b mem (h_Address h) vs w))
         else Err ErrRejected)"

text \<open>
  \<open>Run\<close> only ends with an error: the state, the connection and the error it returns, \<open>None\<close> for a
  panic. The result of writing an error status is ignored.
\<close>

function Run ::
  "('w, 'r) RawBackend \<Rightarrow> int \<Rightarrow> 'w \<Rightarrow> Conn \<Rightarrow> ('w \<times> Conn \<times> raw1_error) option" where
  "Run b maxPacketBytes w conn =
     (case readFrame maxPacketBytes (incoming conn) of
        (Err e, r) \<Rightarrow> Some (w, snd (conn_write (conn\<lparr>incoming := r\<rparr>) [StatusError]), e)
      | (Panic, r) \<Rightarrow> None
      | (Ok f, r) \<Rightarrow>
          (case ResolveMemoryByID b w (h_UnitID (f_Header f)) of
             None \<Rightarrow> Some (w, snd (conn_write (conn\<lparr>incoming := r\<rparr>) [StatusError]), ErrRejected)
           | Some mem \<Rightarrow>
               (case applyFrame b mem f w of
                  Panic \<Rightarrow> None
                | Err e \<Rightarrow> Some (w, snd (conn_write (conn\<lparr>incoming := r\<rparr>) [StatusError]), ErrRejected)
                | Ok w' \<Rightarrow>
                    if fst (conn_write (conn\<lparr>incoming := r\<rparr>) [StatusOK])
                    then Run b maxPacketBytes w' (snd (conn_write (conn\<lparr>incoming := r\<rparr>) [StatusOK]))
                    else Some (w', snd (conn_write (conn\<lparr>incoming := r\<rparr>) [StatusOK]), WriteFailed))))"
  by pat_completeness auto
termination
  by (relation "measure (\<lambda>(b, m, w, conn). length (pending (incoming conn)))")
     (auto dest!: raw1_frames.decode_shrinks [OF sym])

declare Run.simps [simp del]

lemma readFrame_not_panic: "fst (readFrame m r) \<noteq> Panic"
proof
  assume "fst (readFrame m r) = Panic"
  moreover have "parseV1Header bs \<noteq> Panic" "payloadSize a c \<noteq> Panic" for bs a c
    by (simp_all add: parseV1Header_def payloadSize_def Let_def)
  moreover have "ReadFull q n \<noteq> (Panic, q')" for q n q'
    using ReadFull_not_panic [of q n] by (metis fst_conv)
  ultimately show False
    by (auto simp: readFrame_def readExact_def split: prod.splits outcome.splits if_splits)
qed

text \<open>A frame that starts with the magic bytes of constants.go is rejected, whatever follows.\<close>

lemma constants_magic_rejected:
  assumes "take 2 (pending r) = [magic0, magic1]"
  shows "\<exists>r'. readFrame m r = (Err ErrRejected, r')"
proof (cases "readFrame m r")
  case (Pair res r')
  have "res \<noteq> Ok f" for f
  proof
    assume "res = Ok f"
    with raw1_frames.decode_sound [of m r f r'] Pair
    have "frame_valid m f" "pending r = frame_wire f @ pending r'" by simp_all
    then have "take 2 (pending r) = be16_bytes RawMagic"
      by (simp add: frame_wire_def frame_valid_def Let_def be16_bytes_def)
    with assms show False by (simp add: magic0_def magic1_def RawMagic_def be16_bytes_def)
  qed
  moreover have "res = Err ErrRejected \<or> (\<exists>f. res = Ok f)"
    using Pair readFrame_not_panic [of m r]
    by (auto simp: readFrame_def split: prod.splits outcome.splits if_splits)
  ultimately show ?thesis using Pair by blast
qed

text \<open>A backend that never panics.\<close>

definition safe_backend :: "('w, 'r) RawBackend \<Rightarrow> bool" where
  "safe_backend b \<longleftrightarrow>
     (\<forall>m a vs w. WriteCoils b m a vs w \<noteq> Panic \<and> WriteDiscreteInputs b m a vs w \<noteq> Panic) \<and>
     (\<forall>m a vs w. WriteHoldingRegisters b m a vs w \<noteq> Panic \<and> WriteInputRegisters b m a vs w \<noteq> Panic)"

lemma applyFrame_not_panic: "safe_backend b \<Longrightarrow> applyFrame b mem f w \<noteq> Panic"
  by (auto simp: applyFrame_def safe_backend_def alignBits_eq alignRegs_eq Let_def
      split: outcome.splits if_splits)

text \<open>
  The run a sequence of frames amounts to: the state after the frames up to the first that cannot be
  applied, and how many were applied.
\<close>

fun apply_frames :: "('w, 'r) RawBackend \<Rightarrow> frame list \<Rightarrow> 'w \<Rightarrow> 'w \<times> nat" where
  "apply_frames b [] w = (w, 0)"
| "apply_frames b (f # fs) w =
     (case ResolveMemoryByID b w (h_UnitID (f_Header f)) of
        None \<Rightarrow> (w, 0)
      | Some mem \<Rightarrow>
          (case applyFrame b mem f w of
             Ok w' \<Rightarrow> (case apply_frames b fs w' of (w'', n) \<Rightarrow> (w'', Suc n))
           | _ \<Rightarrow> (w, 0)))"

lemma readFrame_end: "readFrame m \<lparr>pending = [], final = x\<rparr> = (Err ErrRejected, \<lparr>pending = [], final = x\<rparr>)"
  by (simp add: readFrame_def readExact_def ReadFull_def RawHeaderV1Size_def)

lemma Run_frames:
  assumes "safe_backend b" and "writable conn" and "\<forall>f \<in> set fs. frame_valid m f"
    and "incoming conn = \<lparr>pending = concat (map frame_wire fs), final = x\<rparr>"
  shows "\<exists>conn'. Run b m w conn = Some (fst (apply_frames b fs w), conn', ErrRejected) \<and>
    sent conn' = sent conn @ replicate (snd (apply_frames b fs w)) [StatusOK] @ [[StatusError]]"
  using assms(2-4)
proof (induction fs arbitrary: w conn)
  case Nil
  then have i: "incoming conn = \<lparr>pending = [], final = x\<rparr>" by simp
  have "writable (conn\<lparr>incoming := \<lparr>pending = [], final = x\<rparr>\<rparr>)"
    using Nil.prems(1) by (simp add: writable_def)
  from writable_write(3) [OF this, of "[StatusError]"] show ?case
    by (simp add: Run.simps [of b m w conn] i readFrame_end)
next
  case (Cons f fs)
  let ?r = "\<lparr>pending = concat (map frame_wire fs), final = x\<rparr>"
  let ?c = "conn\<lparr>incoming := ?r\<rparr>"
  have rd: "readFrame m (incoming conn) = (Ok f, ?r)"
    using raw1_frames.decode_wire [of m f "concat (map frame_wire fs)" x] Cons.prems by simp
  have wc: "writable ?c" using Cons.prems(1) by (simp add: writable_def)
  note loop = Run.simps [of b m w conn] rd
  note err = writable_write(3) [OF wc, of "[StatusError]"]
  show ?case
  proof (cases "ResolveMemoryByID b w (h_UnitID (f_Header f))")
    case (Some mem)
    show ?thesis
    proof (cases "applyFrame b mem f w")
      case (Ok w')
      let ?c' = "snd (conn_write ?c [StatusOK])"
      have "incoming ?c' = ?r" by simp
      from Cons.IH [OF writable_write(2) [OF wc] _ this, of w'] Cons.prems(2)
      show ?thesis using writable_write(1,3) [OF wc, of "[StatusOK]"] Some Ok
        by (auto simp: loop split: prod.splits)
    qed (use Some err applyFrame_not_panic [OF assms(1), of mem f w] in \<open>simp_all add: loop\<close>)
  qed (use err in \<open>simp add: loop\<close>)
qed

end
