(* ===== verification/RawV1Runtime.thy ===== *)
theory RawV1Runtime
  imports RawV1
begin

text \<open>
  internal/transport/raw/memory\_adapter.go and resolver.go: the binding of the first raw protocol to the
  runtime of the appliance. The package \<open>internal/runtime\<close> they import is not in the repository; what
  they use of it is a parameter: the ports in the order \<open>range\<close> visits them, the units of a port, the
  memory of a unit, and the slices of a memory, read and replaced.
\<close>

section \<open>The runtime, as the two files use it\<close>

record ('w, 'p, 'u, 'm) Runtime =
  rt_Ports :: "'w \<Rightarrow> 'p list"
  rt_Units :: "'p \<Rightarrow> 'w \<Rightarrow> u8 \<Rightarrow> 'u option"
  rt_Memory :: "'u \<Rightarrow> 'm"
  rt_Data :: "'m \<Rightarrow> MemoryArea \<Rightarrow> 'w \<Rightarrow> u16 list"
  rt_SetData :: "'m \<Rightarrow> MemoryArea \<Rightarrow> u16 list \<Rightarrow> 'w \<Rightarrow> 'w"

text \<open>A slice that is assigned to element by element reads as it was assigned, and as last assigned.\<close>

definition runtime_laws :: "('w, 'p, 'u, 'm) Runtime \<Rightarrow> bool" where
  "runtime_laws rt \<longleftrightarrow>
     (\<forall>m a xs w. length xs = length (rt_Data rt m a w) \<longrightarrow>
        rt_Data rt m a (rt_SetData rt m a xs w) = xs \<and>
        (\<forall>ys. rt_SetData rt m a ys (rt_SetData rt m a xs w) = rt_SetData rt m a ys w))"

section \<open>The adapter (memory\_adapter.go)\<close>

definition boolToUint16 :: "bool \<Rightarrow> u16" where
  "boolToUint16 v = (if v then 1 else 0)"

text \<open>
  \<open>for i, v := range values { m.mem.X.Data[int(addr)+i] = f(v) }\<close>: an index out of range panics. The sum
  is one of \<open>int\<close>s and does not wrap.
\<close>

fun adapter_loop ::
  "('w, 'p, 'u, 'm) Runtime \<Rightarrow> 'm \<Rightarrow> MemoryArea \<Rightarrow> ('v \<Rightarrow> u16) \<Rightarrow> nat \<Rightarrow> nat \<Rightarrow> 'v list \<Rightarrow> 'w
    \<Rightarrow> (unit, 'w) outcome" where
  "adapter_loop rt m a f addr i [] w = Ok w"
| "adapter_loop rt m a f addr i (v # vs) w =
     (let xs = rt_Data rt m a w in
      if addr + i < length xs
      then adapter_loop rt m a f addr (i + 1) vs (rt_SetData rt m a (xs[addr + i := f v]) w)
      else Panic)"

definition adapter_WriteCoils where
  "adapter_WriteCoils rt m addr values w =
     adapter_loop rt m RawAreaCoils boolToUint16 (unat (addr :: u16)) 0 values w"

definition adapter_WriteDiscreteInputs where
  "adapter_WriteDiscreteInputs rt m addr values w =
     adapter_loop rt m RawAreaDiscreteInputs boolToUint16 (unat (addr :: u16)) 0 values w"

definition adapter_WriteHoldingRegisters where
  "adapter_WriteHoldingRegisters rt m addr values w =
     adapter_loop rt m RawAreaHoldingRegs id (unat (addr :: u16)) 0 values w"

definition adapter_WriteInputRegisters where
  "adapter_WriteInputRegisters rt m addr values w =
     adapter_loop rt m RawAreaInputRegs id (unat (addr :: u16)) 0 values w"

section \<open>The resolver (resolver.go)\<close>

fun resolver_loop :: "('w, 'p, 'u, 'm) Runtime \<Rightarrow> u16 \<Rightarrow> 'p list \<Rightarrow> 'w \<Rightarrow> 'm option" where
  "resolver_loop rt i [] w = None"
| "resolver_loop rt i (port # ports) w =
     (case rt_Units rt port w (ucast i) of
        Some unit \<Rightarrow> Some (rt_Memory rt unit)
      | None \<Rightarrow> resolver_loop rt i ports w)"

definition RuntimeResolver :: "('w, 'p, 'u, 'm) Runtime \<Rightarrow> ('w, 'm) RawBackend" where
  "RuntimeResolver rt =
     \<lparr>ResolveMemoryByID = (\<lambda>w i. resolver_loop rt i (rt_Ports rt w) w),
      WriteCoils = adapter_WriteCoils rt,
      WriteDiscreteInputs = adapter_WriteDiscreteInputs rt,
      WriteHoldingRegisters = adapter_WriteHoldingRegisters rt,
      WriteInputRegisters = adapter_WriteInputRegisters rt\<rparr>"

lemmas adapter_defs = adapter_WriteCoils_def adapter_WriteDiscreteInputs_def
  adapter_WriteHoldingRegisters_def adapter_WriteInputRegisters_def

section \<open>What the adapter does\<close>

lemma adapter_loop_eq:
  assumes "runtime_laws rt" and "vs \<noteq> []"
  shows "adapter_loop rt m a f addr i vs w =
    (if addr + i + length vs \<le> length (rt_Data rt m a w)
     then Ok (rt_SetData rt m a (overwrite (addr + i) (map f vs) (rt_Data rt m a w)) w) else Panic)"
  using assms(2)
proof (induction vs arbitrary: i w)
  case (Cons v vs)
  let ?xs = "rt_Data rt m a w"
  show ?case
  proof (cases "addr + i < length ?xs")
    case True
    let ?w = "rt_SetData rt m a (?xs[addr + i := f v]) w"
    have d: "rt_Data rt m a ?w = ?xs[addr + i := f v]"
      "rt_SetData rt m a ys ?w = rt_SetData rt m a ys w" for ys
      using assms(1) by (simp_all add: runtime_laws_def)
    from True show ?thesis
    proof (cases "vs = []")
      case False
      with True Cons.IH [OF False, of "i + 1" ?w] show ?thesis by (simp add: d overwrite_Cons)
    qed (simp add: overwrite_Cons)
  qed simp
qed simp

text \<open>The words a frame writes, or \<open>None\<close> when its payload does not align with its count.\<close>

definition frame_values :: "frame \<Rightarrow> u16 list option" where
  "frame_values f =
     (let h = f_Header f; p = f_Payload f in
      if h_Area h \<in> {RawAreaCoils, RawAreaDiscreteInputs} then
        if unat (h_Count h) \<le> 8 * length p
        then Some (map (\<lambda>k. boolToUint16 (bit_at p k)) [0..<unat (h_Count h)]) else None
      else if length p = 2 * unat (h_Count h) then Some (bytes_regs p) else None)"

lemma applyFrame_runtime:
  assumes "runtime_laws rt" and "header_valid (f_Header f)"
  shows "applyFrame (RuntimeResolver rt) m f w =
    (let a = h_Area (f_Header f); k = unat (h_Address (f_Header f)); xs = rt_Data rt m a w in
     case frame_values f of
       None \<Rightarrow> Err ErrRejected
     | Some vs \<Rightarrow> if k + length vs \<le> length xs then Ok (rt_SetData rt m a (overwrite k vs xs) w) else Panic)"
proof -
  let ?h = "f_Header f"
  from assms(2) have n: "0 < unat (h_Count ?h)" by (simp add: header_valid_def unat_gt_0)
  from assms(2) have area: "h_Area ?h \<in> {RawAreaCoils, RawAreaDiscreteInputs, RawAreaHoldingRegs, RawAreaInputRegs}"
    by (auto simp: header_valid_def payloadSize_def split: if_splits)
  note loop = adapter_loop_eq [OF assms(1)]
  have regs: "bytes_regs (f_Payload f) \<noteq> []" if "length (f_Payload f) = 2 * unat (h_Count ?h)"
    using n that by (metis length_bytes_regs length_greater_0_conv nonzero_mult_div_cancel_left zero_neq_numeral)
  have bits: "map (bit_at (f_Payload f)) [0..<unat (h_Count ?h)] \<noteq> []" using n by simp
  from area show ?thesis
    by (auto simp: applyFrame_def Let_def alignBits_eq alignRegs_eq RuntimeResolver_def adapter_defs
        frame_values_def loop [OF regs] loop [OF bits] comp_def raw_area_defs)
qed

text \<open>The resolver looks at the low byte of the unit identifier only, and takes the first port.\<close>

lemma resolver_loop_eq:
  "resolver_loop rt i ports w =
    (case dropWhile (\<lambda>p. rt_Units rt p w (ucast i) = None) ports of
       [] \<Rightarrow> None
     | p # _ \<Rightarrow> map_option (rt_Memory rt) (rt_Units rt p w (ucast i)))"
  by (induction ports) (auto split: option.splits)

text \<open>A frame past the end of its area ends the process.\<close>

lemma Run_out_of_range:
  assumes "runtime_laws rt" and "frame_valid mx f"
    and "pending (incoming conn) = frame_wire f @ rest"
    and "resolver_loop rt (h_UnitID (f_Header f)) (rt_Ports rt w) w = Some m"
    and "frame_values f = Some vs"
    and "length (rt_Data rt m (h_Area (f_Header f)) w) < unat (h_Address (f_Header f)) + length vs"
  shows "Run (RuntimeResolver rt) mx w conn = None"
proof -
  have hv: "header_valid (f_Header f)"
    using assms(2) by (auto simp: frame_valid_def header_valid_def payloadSize_def Let_def split: if_splits)
  have "incoming conn = \<lparr>pending = frame_wire f @ rest, final = final (incoming conn)\<rparr>"
    using assms(3) by (cases "incoming conn") simp
  with raw1_frames.decode_wire [OF assms(2), of rest "final (incoming conn)"]
  have "readFrame mx (incoming conn) = (Ok f, \<lparr>pending = rest, final = final (incoming conn)\<rparr>)" by simp
  moreover have "applyFrame (RuntimeResolver rt) m f w = Panic"
    using applyFrame_runtime [OF assms(1) hv, of m w] assms(5,6) by simp
  moreover have "ResolveMemoryByID (RuntimeResolver rt) w (h_UnitID (f_Header f)) = Some m"
    using assms(4) by (simp add: RuntimeResolver_def)
  ultimately show ?thesis by (simp add: Run.simps [of "RuntimeResolver rt"])
qed

end
