(* ===== verification/RawV1Claims.thy ===== *)
theory RawV1Claims
  imports RawV1Runtime
begin

text \<open>
  The properties of the first raw ingest protocol (internal/transport/raw).
\<close>

definition ex_frame :: frame where
  "ex_frame =
     \<lparr>f_Header = \<lparr>h_Magic = RawMagic, h_Version = RawVerV1, h_Flags = 0, h_Area = RawAreaCoils,
        h_Rsv = 0, h_UnitID = 1, h_Port = 502, h_Address = 0, h_Count = 3\<rparr>,
      f_Payload = [5]\<rparr>"



text \<open>C38: over memories that do not panic, a client that sends frames and closes is answered with one OK
  byte for every frame up to the first that cannot be applied, and then exactly one error byte, also
  when every frame was applied; the state is that of the applied frames in order, and \<open>Run\<close> returns
  the rejection error.\<close>

theorem raw1_replies:
  assumes "safe_backend b" and "writable conn" and "\<forall>f \<in> set fs. frame_valid m f"
    and "incoming conn = \<lparr>pending = concat (map frame_wire fs), final = x\<rparr>"
  shows "\<exists>conn'. Run b m w conn = Some (fst (apply_frames b fs w), conn', ErrRejected) \<and>
    sent conn' = sent conn @ replicate (snd (apply_frames b fs w)) [0] @ [[1]]"
  using Run_frames [OF assms, of w] by (simp add: StatusOK_def StatusError_def)

text \<open>A backend with one memory, a map from addresses to coils and registers, without bounds.\<close>

definition ex_backend :: "((u16 \<Rightarrow> u16) \<times> (u16 \<Rightarrow> bool), unit) RawBackend" where
  "ex_backend =
     \<lparr>ResolveMemoryByID = (\<lambda>_ u. if u = 1 then Some () else None),
      WriteCoils = (\<lambda>_ a vs (f, g). Ok (f, \<lambda>x. if unat (x - a) < length vs then vs ! unat (x - a) else g x)),
      WriteDiscreteInputs = (\<lambda>_ a vs w. Err ()),
      WriteHoldingRegisters =
        (\<lambda>_ a vs (f, g). Ok (\<lambda>x. if unat (x - a) < length vs then vs ! unat (x - a) else f x, g)),
      WriteInputRegisters = (\<lambda>_ a vs w. Err ())\<rparr>"

theorem raw1_replies_witness:
  "\<exists>conn'. Run ex_backend 64 (\<lambda>_. 0, \<lambda>_. False)
      \<lparr>incoming = \<lparr>pending = frame_wire ex_frame, final = EOF\<rparr>, sent = [], write_fate = [],
       closed = False, local_port = Some 502, remote_ip = None\<rparr>
    = Some (fst (apply_frames ex_backend [ex_frame] (\<lambda>_. 0, \<lambda>_. False)), conn', ErrRejected) \<and>
    sent conn' = [[0], [1]]"
proof -
  let ?c = "\<lparr>incoming = \<lparr>pending = frame_wire ex_frame, final = EOF\<rparr>, sent = [], write_fate = [],
       closed = False, local_port = Some 502, remote_ip = None\<rparr>"
  have "safe_backend ex_backend" by (auto simp: safe_backend_def ex_backend_def)
  moreover have "writable ?c" by (simp add: writable_def)
  moreover have "frame_valid 64 ex_frame"
    "snd (apply_frames ex_backend [ex_frame] (\<lambda>_. 0, \<lambda>_. False)) = 1" by code_simp+
  ultimately show ?thesis
    using raw1_replies [of ex_backend ?c "[ex_frame]" 64 EOF "(\<lambda>_. 0, \<lambda>_. False)"] by simp
qed

section \<open>The binding to the runtime\<close>

text \<open>C39: over any runtime whose slices read as they were last assigned, a frame is applied to the memory
  of the first port that has a unit under the low byte of its unit identifier, the high byte and the
  port in the header being ignored; it overwrites the addressed words of the area with the values of
  its payload, one word per coil, is rejected when the payload does not align, and panics when it
  reaches past the end of the area.\<close>

theorem runtime_applies:
  assumes "runtime_laws rt" and "header_valid (f_Header f)"
  shows "ResolveMemoryByID (RuntimeResolver rt) w i =
      (case dropWhile (\<lambda>p. rt_Units rt p w (ucast i) = None) (rt_Ports rt w) of
         [] \<Rightarrow> None
       | p # _ \<Rightarrow> map_option (rt_Memory rt) (rt_Units rt p w (ucast i))) \<and>
    applyFrame (RuntimeResolver rt) m f w =
      (let a = h_Area (f_Header f); k = unat (h_Address (f_Header f)); xs = rt_Data rt m a w in
       case frame_values f of
         None \<Rightarrow> Err ErrRejected
       | Some vs \<Rightarrow>
           if k + length vs \<le> length xs then Ok (rt_SetData rt m a (overwrite k vs xs) w) else Panic)"
  using applyFrame_runtime [OF assms] by (simp add: RuntimeResolver_def resolver_loop_eq)

text \<open>A runtime with one port, unit 1 and one memory that has holding registers only.\<close>

definition ex_runtime :: "(u16 list, unit, unit, unit) Runtime" where
  "ex_runtime =
     \<lparr>rt_Ports = (\<lambda>_. [()]), rt_Units = (\<lambda>_ _ u. if u = 1 then Some () else None),
      rt_Memory = (\<lambda>_. ()), rt_Data = (\<lambda>_ a w. if a = RawAreaHoldingRegs then w else []),
      rt_SetData = (\<lambda>_ a xs w. if a = RawAreaHoldingRegs then xs else w)\<rparr>"

lemma ex_runtime_laws: "runtime_laws ex_runtime"
  by (simp add: runtime_laws_def ex_runtime_def)

definition ex_regs :: "u16 \<Rightarrow> frame" where
  "ex_regs address =
     \<lparr>f_Header = \<lparr>h_Magic = RawMagic, h_Version = RawVerV1, h_Flags = 0, h_Area = RawAreaHoldingRegs,
        h_Rsv = 0, h_UnitID = 0x0301, h_Port = 9, h_Address = address, h_Count = 2\<rparr>,
      f_Payload = [0, 5, 0, 6]\<rparr>"

theorem runtime_applies_witness:
  "ResolveMemoryByID (RuntimeResolver ex_runtime) [1, 2, 3] 0x0301 = Some () \<and>
   applyFrame (RuntimeResolver ex_runtime) () (ex_regs 1) [1, 2, 3] = Ok [1, 5, 6]"
proof -
  have v: "header_valid (f_Header (ex_regs 1))" by code_simp
  have "frame_values (ex_regs 1) = Some [5, 6]" by code_simp
  with runtime_applies [OF ex_runtime_laws v, of "[1, 2, 3]" "0x0301" "()"] show ?thesis
    by (simp add: ex_regs_def ex_runtime_def overwrite_def)
qed

end
