(* ===== verification/ConfigClaims.thy ===== *)
theory ConfigClaims
  imports Examples
begin

text \<open>
  The properties of the configuration: what validation accepts, which configurations start, and what
  a started appliance is made of.
\<close>

section \<open>Validation\<close>


section \<open>Startup\<close>




end
