(* ===== verification/Interleave.thy ===== *)
theory Interleave
  imports Startup
begin

text \<open>
  Connections served at the same time: \<open>go l.handleConn(...)\<close> runs every connection as its own
  goroutine on the shared memories. A goroutine touches shared state only inside one call of the
  store, of a memory or of the authority, and each of them runs under one lock, so the atomic steps
  are: read a request and check the sealing bit and the rules; dispatch an admitted request; apply a
  raw packet. Between the check and the dispatch of a request other connections can run.
\<close>

section \<open>The steps of one connection\<close>

datatype phase = Reading | Dispatching Request

datatype task = ModbusTask u16 Addr phase Conn | RawTask u16 Conn | Done Conn

text \<open>Where a connection stands when its protocol has been chosen and its addresses resolved.\<close>

definition modbus_task :: "Conn \<Rightarrow> task" where
  "modbus_task c =
     (case local_port c of None \<Rightarrow> Done (conn_close c)
      | Some lp \<Rightarrow>
          (case remote_ip c of None \<Rightarrow> Done (conn_close c)
           | Some ip \<Rightarrow>
               (case ParseAddr ip of None \<Rightarrow> Done (conn_close c)
                | Some src \<Rightarrow> ModbusTask (of_nat lp) src Reading c)))"

definition raw_task :: "Conn \<Rightarrow> task" where
  "raw_task c =
     (case local_port c of None \<Rightarrow> Done (conn_close c) | Some lp \<Rightarrow> RawTask (of_nat lp) c)"

definition initial_task :: "Conn \<Rightarrow> task" where
  "initial_task c =
     (if length (pending (incoming c)) < 2 then Done (conn_close c)
      else if take 2 (pending (incoming c)) = [0x52, 0x49] then raw_task c
      else modbus_task c)"

inductive task_step :: "Store \<Rightarrow> Authority \<Rightarrow> Heap \<Rightarrow> task \<Rightarrow> Heap \<Rightarrow> task \<Rightarrow> bool"
  for s :: Store and auth :: Authority where
  read_fails: "ReadRequest port (incoming c) = (Err e, r) \<Longrightarrow>
    task_step s auth h (ModbusTask port src Reading c) h (Done (conn_close (c\<lparr>incoming := r\<rparr>)))"
| sealed: "ReadRequest port (incoming c) = (Ok req, r) \<Longrightarrow>
    seal_check h (Some s) (memory_id req) = Ok True \<Longrightarrow>
    task_step s auth h (ModbusTask port src Reading c) h (ModbusTask port src Reading
      (snd (conn_write (c\<lparr>incoming := r\<rparr>)
        (BuildResponse req (BuildExceptionPDU (FunctionCode req) 0x06)))))"
| denied: "ReadRequest port (incoming c) = (Ok req, r) \<Longrightarrow>
    seal_check h (Some s) (memory_id req) = Ok False \<Longrightarrow>
    \<not> Allowed (Evaluate auth (auth_request req src)) \<Longrightarrow>
    task_step s auth h (ModbusTask port src Reading c) h (ModbusTask port src Reading
      (snd (conn_write (c\<lparr>incoming := r\<rparr>)
        (BuildResponse req (BuildExceptionPDU (FunctionCode req)
          (ExceptionCode (Evaluate auth (auth_request req src))))))))"
| admits: "ReadRequest port (incoming c) = (Ok req, r) \<Longrightarrow>
    seal_check h (Some s) (memory_id req) = Ok False \<Longrightarrow>
    Allowed (Evaluate auth (auth_request req src)) \<Longrightarrow>
    task_step s auth h (ModbusTask port src Reading c)
      h (ModbusTask port src (Dispatching req) (c\<lparr>incoming := r\<rparr>))"
| no_reply: "DispatchMemory h (Some s) req = Some (h', []) \<Longrightarrow>
    task_step s auth h (ModbusTask port src (Dispatching req) c) h' (Done (conn_close c))"
| replies: "DispatchMemory h (Some s) req = Some (h', pdu) \<Longrightarrow> pdu \<noteq> [] \<Longrightarrow>
    conn_write c (BuildResponse req pdu) = (True, c') \<Longrightarrow>
    task_step s auth h (ModbusTask port src (Dispatching req) c) h' (ModbusTask port src Reading c')"
| reply_fails: "DispatchMemory h (Some s) req = Some (h', pdu) \<Longrightarrow> pdu \<noteq> [] \<Longrightarrow>
    conn_write c (BuildResponse req pdu) = (False, c') \<Longrightarrow>
    task_step s auth h (ModbusTask port src (Dispatching req) c) h' (Done (conn_close c'))"
| raw_fails: "DecodeOne port (incoming c) = (Err e, r) \<Longrightarrow>
    task_step s auth h (RawTask port c) h (Done (conn_close
      (if e = RawIO EOF then c\<lparr>incoming := r\<rparr>
       else snd (conn_write (c\<lparr>incoming := r\<rparr>) [RespRejected]))))"
| raw_applies: "DecodeOne port (incoming c) = (Ok pkt, r) \<Longrightarrow>
    apply_packet h (Some s) pkt = Some (h', st) \<Longrightarrow>
    task_step s auth h (RawTask port c) h' (RawTask port (snd (conn_write (c\<lparr>incoming := r\<rparr>) [st])))"

inductive_cases ModbusTask_step [elim!]: "task_step s auth h (ModbusTask port src ph c) h' t'"
inductive_cases RawTask_step [elim!]: "task_step s auth h (RawTask port c) h' t'"
inductive_simps Done_step [simp]: "task_step s auth h (Done c) h' t'"

section \<open>The whole appliance\<close>

record System =
  sys_heap :: Heap
  sys_tasks :: "task list"

text \<open>Some connection moves; which one is up to the scheduler.\<close>

inductive sys_step :: "Store \<Rightarrow> Authority \<Rightarrow> System \<Rightarrow> System \<Rightarrow> bool"
  for s :: Store and auth :: Authority where
  runs: "i < length (sys_tasks S) \<Longrightarrow>
    task_step s auth (sys_heap S) (sys_tasks S ! i) h' t' \<Longrightarrow>
    sys_step s auth S \<lparr>sys_heap = h', sys_tasks = (sys_tasks S)[i := t']\<rparr>"

inductive_cases sys_stepE: "sys_step s auth S S'"

definition serving :: "Heap \<Rightarrow> Conn list \<Rightarrow> System" where
  "serving h conns = \<lparr>sys_heap = h, sys_tasks = map initial_task conns\<rparr>"

abbreviation runs_to :: "Store \<Rightarrow> Authority \<Rightarrow> System \<Rightarrow> System \<Rightarrow> bool" where
  "runs_to s auth \<equiv> (sys_step s auth)\<^sup>*\<^sup>*"

fun is_done :: "task \<Rightarrow> bool" where
  "is_done (Done c) = closed c"
| "is_done _ = False"

section \<open>What one step does to the memories\<close>

text \<open>The port of a task, and what it still may write.\<close>

definition may_admit :: "Authority \<Rightarrow> u16 \<Rightarrow> Addr \<Rightarrow> MemoryID \<Rightarrow> bool" where
  "may_admit auth port src mid \<longleftrightarrow>
     Port mid = port \<and> (\<exists>fc \<in> writing_codes. Allowed (Evaluate auth
        \<lparr>req_MemoryID = mid, req_SourceIP = src, req_FunctionCode = fc\<rparr>))"

fun may_write :: "Authority \<Rightarrow> task \<Rightarrow> MemoryID \<Rightarrow> bool" where
  "may_write auth (Done c) mid = False"
| "may_write auth (RawTask port c) mid = (Port mid = port)"
| "may_write auth (ModbusTask port src Reading c) mid = may_admit auth port src mid"
| "may_write auth (ModbusTask port src (Dispatching req) c) mid =
     (memory_id req = mid \<and> FunctionCode req \<in> writing_codes \<or> may_admit auth port src mid)"

text \<open>A request in flight belongs to its connection.\<close>

fun task_ok :: "task \<Rightarrow> bool" where
  "task_ok (ModbusTask port src (Dispatching req) c) = (mb_Port req = port)"
| "task_ok (Done c) = closed c"
| "task_ok _ = True"

lemma request_port: "ReadRequest port q = (Ok req, r) \<Longrightarrow> mb_Port req = port"
  using modbus_frames.decode_sound [of port q req r] by (simp add: request_valid_def)

lemma packet_port: "DecodeOne port q = (Ok pkt, r) \<Longrightarrow> Port (packet_id pkt) = port"
  using raw_frames.decode_sound [of port q pkt r] by (simp add: packet_valid_def packet_id_def)

lemma initial_task_ok: "task_ok (initial_task c)"
  by (simp add: initial_task_def raw_task_def modbus_task_def conn_close_def split: option.splits)

lemma task_step_ok: "task_step s auth h t h' t' \<Longrightarrow> task_ok t \<Longrightarrow> task_ok t'"
  by (induction rule: task_step.induct) (simp_all add: conn_close_def request_port)

text \<open>What is past the sealing check of \<open>mid\<close>, or never passes one.\<close>

fun in_flight :: "task \<Rightarrow> MemoryID \<Rightarrow> bool" where
  "in_flight (RawTask port c) mid = (Port mid = port)"
| "in_flight (ModbusTask port src (Dispatching req) c) mid =
     (memory_id req = mid \<and> FunctionCode req \<in> writing_codes)"
| "in_flight _ mid = False"

lemma task_step_in_flight:
  assumes "task_step s auth h t h' t'" and "wf_store h s"
  shows "h' = h \<or> (\<exists>mid. touches h s mid h' \<and> in_flight t mid)"
  using assms
proof (induction rule: task_step.induct)
  case (no_reply h req h')
  show ?case by (rule dispatch_cases [OF no_reply.prems, of req]) (use no_reply in auto)
next
  case (replies h req h' pdu)
  show ?case by (rule dispatch_cases [OF replies.prems, of req]) (use replies in auto)
next
  case (reply_fails h req h' pdu)
  show ?case by (rule dispatch_cases [OF reply_fails.prems, of req]) (use reply_fails in auto)
next
  case (raw_applies port c pkt r h h' st)
  from apply_packet_safe [OF raw_applies.prems, of pkt] raw_applies.hyps(2)
  have "touches h s (packet_id pkt) h'" by auto
  with packet_port [OF raw_applies.hyps(1)] show ?case by auto
qed simp_all

lemma in_flight_may_write: "in_flight t mid \<Longrightarrow> may_write auth t mid"
  by (induction t mid rule: in_flight.induct) simp_all

lemma task_step_confined:
  "task_step s auth h t h' t' \<Longrightarrow> wf_store h s \<Longrightarrow> h' = h \<or> (\<exists>mid. touches h s mid h' \<and> may_write auth t mid)"
  using task_step_in_flight in_flight_may_write by blast

section \<open>Invariants of every interleaving\<close>

text \<open>
  The contract behind the invariants below: steps of tasks that satisfy \<open>calm\<close> keep \<open>inv\<close> of the
  heap, and keep the task \<open>calm\<close>.
\<close>

locale interference =
  fixes s :: Store and auth :: Authority
    and calm :: "task \<Rightarrow> bool" and inv :: "Heap \<Rightarrow> bool"
  assumes step: "task_step s auth h t h' t' \<Longrightarrow> wf_store h s \<Longrightarrow> inv h \<Longrightarrow> calm t \<Longrightarrow> calm t' \<and> inv h'"
begin

lemma sys_step_keeps:
  assumes "sys_step s auth S S'" and "wf_store (sys_heap S) s" and "inv (sys_heap S)"
    and "\<forall>t \<in> set (sys_tasks S). calm t"
  shows "wf_store (sys_heap S') s \<and> inv (sys_heap S') \<and> (\<forall>t \<in> set (sys_tasks S'). calm t)"
proof -
  from assms(1) obtain i h' t' where S': "S' = \<lparr>sys_heap = h', sys_tasks = (sys_tasks S)[i := t']\<rparr>"
    and i: "i < length (sys_tasks S)"
    and t: "task_step s auth (sys_heap S) (sys_tasks S ! i) h' t'" by (rule sys_stepE)
  from i assms(4) have "calm (sys_tasks S ! i)" by simp
  from step [OF t assms(2,3) this] have "calm t'" "inv h'" by simp_all
  moreover from task_step_in_flight [OF t assms(2)] assms(2) have "wf_store h' s"
    by (auto intro: touches_wf)
  ultimately show ?thesis
    using assms(4) set_update_subset_insert [of "sys_tasks S" i t'] by (auto simp: S')
qed

lemma reach:
  assumes "runs_to s auth S S'" and "wf_store (sys_heap S) s" and "inv (sys_heap S)"
    and "\<forall>t \<in> set (sys_tasks S). calm t"
  shows "wf_store (sys_heap S') s \<and> inv (sys_heap S') \<and> (\<forall>t \<in> set (sys_tasks S'). calm t)"
  using assms by (induction rule: rtranclp_induct) (simp, metis sys_step_keeps)

end

text \<open>Permissions only shrink along a connection.\<close>

lemma may_admit_request:
  assumes "ReadRequest port q = (Ok req, r)" and "Allowed (Evaluate auth (auth_request req src))"
    and "FunctionCode req \<in> writing_codes"
  shows "may_admit auth port src (memory_id req)"
  using assms request_port [OF assms(1)]
  by (auto simp: may_admit_def auth_request_def memory_id_def)

lemma task_step_may_write:
  "task_step s auth h t h' t' \<Longrightarrow> may_write auth t' mid \<Longrightarrow> may_write auth t mid"
  by (induction rule: task_step.induct) (auto dest: may_admit_request)

lemma touches_keeps:
  assumes "h' = h \<or> (\<exists>j. touches h s j h' \<and> P j)" and "\<not> P mid"
  shows "memory_of h' s mid = memory_of h s mid"
  using assms touches_other by metis

lemma sealed_stays_out:
  assumes "task_step s auth h t h' t'" and "wf_store h s"
    and "memory_of h s mid = Some m" and "is_sealed m" and "\<not> in_flight t mid"
  shows "\<not> in_flight t' mid"
  using assms
  by (induction rule: task_step.induct) (auto simp: seal_check_eq)

interpretation unpermitted: interference s auth "\<lambda>t. \<not> may_write auth t mid"
  "\<lambda>h. memory_of h s mid = mo" for s auth mid mo
  by unfold_locales
     (metis task_step_may_write touches_keeps [OF task_step_confined])

interpretation sealed: interference s auth "\<lambda>t. \<not> in_flight t mid"
  "\<lambda>h. memory_of h s mid = Some m \<and> is_sealed m" for s auth mid m
  by unfold_locales
     (metis sealed_stays_out touches_keeps [OF task_step_in_flight])

interpretation well_formed: interference s auth task_ok "\<lambda>h. True" for s auth
  by unfold_locales (simp add: task_step_ok)

section \<open>Every connection can move, and comes to an end\<close>

lemma task_step_progress:
  assumes "wf_store h s"
  shows "(\<exists>h' t'. task_step s auth h t h' t') \<or> (\<exists>c. t = Done c)"
proof (cases t)
  case (ModbusTask port src ph c)
  show ?thesis
  proof (cases ph)
    case Reading
    obtain o' r where rd: "ReadRequest port (incoming c) = (o', r)" by fastforce
    show ?thesis
    proof (cases o')
      case (Ok req)
      with rd have rd: "ReadRequest port (incoming c) = (Ok req, r)" by simp
      have "seal_check h (Some s) (memory_id req) = Ok True \<or>
        seal_check h (Some s) (memory_id req) = Ok False"
        using seal_check_eq [OF assms] by auto
      then show ?thesis unfolding ModbusTask Reading
        by (cases "Allowed (Evaluate auth (auth_request req src))")
           (blast intro: task_step.intros rd)+
    qed (use rd ReadRequest_not_panic [of port "incoming c"] in
          \<open>auto simp: ModbusTask Reading intro: task_step.intros\<close>)
  next
    case (Dispatching req)
    obtain h' pdu where "DispatchMemory h (Some s) req = Some (h', pdu)" "pdu \<noteq> []"
      by (rule dispatch_cases [OF assms, of req])
    moreover obtain c' where "conn_write c (BuildResponse req pdu) = (True, c') \<or>
        conn_write c (BuildResponse req pdu) = (False, c')"
      by (metis (full_types) surj_pair)
    ultimately show ?thesis unfolding ModbusTask Dispatching by (blast intro: task_step.intros)
  qed
next
  case (RawTask port c)
  obtain o' r where rd: "DecodeOne port (incoming c) = (o', r)" by fastforce
  show ?thesis
  proof (cases o')
    case (Ok pkt)
    with rd apply_packet_safe [OF assms, of pkt] show ?thesis
      unfolding RawTask by (blast intro: task_step.intros)
  qed (use rd DecodeOne_not_panic [of port "incoming c"] in
        \<open>auto simp: RawTask intro: task_step.intros\<close>)
qed simp

text \<open>How many steps are left at most.\<close>

fun work :: "task \<Rightarrow> nat" where
  "work (Done c) = 0"
| "work (RawTask port c) = 2 * length (pending (incoming c)) + 1"
| "work (ModbusTask port src Reading c) = 2 * length (pending (incoming c)) + 1"
| "work (ModbusTask port src (Dispatching req) c) = 2 * length (pending (incoming c)) + 2"

lemma conn_write_pending: "conn_write c bs = (b, c') \<Longrightarrow> incoming c' = incoming c"
  using conn_write_incoming(1) [of c bs] by simp

lemma task_step_works: "task_step s auth h t h' t' \<Longrightarrow> work t' < work t"
  by (induction rule: task_step.induct)
     (auto dest!: modbus_frames.decode_shrinks raw_frames.decode_shrinks conn_write_pending)

lemma sum_list_update_less:
  "i < length xs \<Longrightarrow> f y < f (xs ! i) \<Longrightarrow> sum_list (map f (xs[i := y])) < (sum_list (map f xs) :: nat)"
  by (induction xs arbitrary: i) (auto split: nat.splits)

definition sys_work :: "System \<Rightarrow> nat" where
  "sys_work S = sum_list (map work (sys_tasks S))"

lemma sys_step_works: "sys_step s auth S S' \<Longrightarrow> sys_work S' < sys_work S"
  by (auto simp: sys_work_def elim!: sys_stepE intro!: sum_list_update_less task_step_works)

lemma runs_bounded: "(sys_step s auth ^^ n) S S' \<Longrightarrow> n + sys_work S' \<le> sys_work S"
  by (induction n arbitrary: S') (fastforce dest: sys_step_works)+

lemma initial_work: "work (initial_task c) \<le> 2 * length (pending (incoming c)) + 1"
  by (simp add: initial_task_def raw_task_def modbus_task_def split: option.splits)

lemma serving_work:
  "sys_work (serving h conns) \<le> (\<Sum>c\<leftarrow>conns. 2 * length (pending (incoming c)) + 1)"
  unfolding sys_work_def serving_def
proof (induction conns)
  case (Cons c conns)
  with initial_work [of c] show ?case by simp
qed simp

text \<open>As long as a connection is open, some step is possible.\<close>

lemma sys_step_progress:
  assumes "wf_store (sys_heap S) s" and "\<forall>t \<in> set (sys_tasks S). task_ok t"
    and "\<not> list_all is_done (sys_tasks S)"
  shows "\<exists>S'. sys_step s auth S S'"
proof -
  from assms(3) obtain i where i: "i < length (sys_tasks S)" "\<not> is_done (sys_tasks S ! i)"
    by (auto simp: list_all_length)
  with assms(2) have "sys_tasks S ! i \<noteq> Done c" for c by (metis is_done.simps(1) nth_mem task_ok.simps(2))
  with task_step_progress [OF assms(1), of auth "sys_tasks S ! i"] i(1) show ?thesis
    by (blast intro: runs)
qed

lemma runs_to_completion:
  assumes "wf_store (sys_heap S) s" and "\<forall>t \<in> set (sys_tasks S). task_ok t"
  shows "\<exists>S'. runs_to s auth S S' \<and> list_all is_done (sys_tasks S')"
  using assms
proof (induction "sys_work S" arbitrary: S rule: less_induct)
  case less
  show ?case
  proof (cases "list_all is_done (sys_tasks S)")
    case False
    with less.prems obtain S1 where S1: "sys_step s auth S S1" by (blast dest: sys_step_progress)
    from well_formed.sys_step_keeps [OF S1 less.prems(1) TrueI less.prems(2)]
      less.hyps [OF sys_step_works [OF S1]] obtain S' where
      "runs_to s auth S1 S'" "list_all is_done (sys_tasks S')" by blast
    with S1 show ?thesis by (blast intro: converse_rtranclp_into_rtranclp)
  qed blast
qed

lemma serving_completes:
  assumes "wf_store h s"
  shows "\<exists>S. runs_to s auth (serving h conns) S \<and> list_all is_done (sys_tasks S)"
  using assms by (intro runs_to_completion) (simp_all add: serving_def initial_task_ok)

section \<open>One connection alone\<close>

abbreviation task_runs :: "Store \<Rightarrow> Authority \<Rightarrow> Heap \<times> task \<Rightarrow> Heap \<times> task \<Rightarrow> bool" where
  "task_runs s auth \<equiv> (\<lambda>(h, t) (h', t'). task_step s auth h t h' t')\<^sup>*\<^sup>*"

lemma task_runs_step:
  "task_step s auth h t h1 t1 \<Longrightarrow> task_runs s auth (h1, t1) x \<Longrightarrow> task_runs s auth (h, t) x"
  by (rule converse_rtranclp_into_rtranclp) auto

lemma refused_step:
  assumes "wf_store h s" and "ReadRequest port (incoming c) = (Ok req, r)"
    and "\<not> admitted h s auth src req"
  shows "task_step s auth h (ModbusTask port src Reading c) h (ModbusTask port src Reading
    (snd (conn_write (c\<lparr>incoming := r\<rparr>) (BuildResponse req (refusal h s auth src req)))))"
proof (cases "case memory_of h s (memory_id req) of None \<Rightarrow> False | Some m \<Rightarrow> is_sealed m")
  case True
  with task_step.sealed [OF assms(2), of h s auth src] show ?thesis
    by (simp add: seal_check_eq [OF assms(1)] refusal_def)
next
  case False
  with assms(3) have "\<not> Allowed (Evaluate auth (auth_request req src))"
    by (auto simp: admitted_def split: option.splits)
  with False task_step.denied [OF assms(2), of h s auth src] show ?thesis
    by (simp add: seal_check_eq [OF assms(1)] refusal_def)
qed

lemma admitted_step:
  assumes "wf_store h s" and "ReadRequest port (incoming c) = (Ok req, r)"
    and "admitted h s auth src req"
  shows "task_step s auth h (ModbusTask port src Reading c)
    h (ModbusTask port src (Dispatching req) (c\<lparr>incoming := r\<rparr>))"
  using assms
  by (intro admits) (auto simp: seal_check_eq [OF assms(1)] admitted_def split: option.splits)

lemma served_steps:
  assumes "wf_store h s" and "ReadRequest port (incoming c) = (Ok req, r)"
    and "admitted h s auth src req" and "DispatchMemory h (Some s) req = Some (h1, pdu)" and "pdu \<noteq> []"
    and "conn_write (c\<lparr>incoming := r\<rparr>) (BuildResponse req pdu) = (b, c1)"
    and "task_runs s auth (h1, if b then ModbusTask port src Reading c1 else Done (conn_close c1)) x"
  shows "task_runs s auth (h, ModbusTask port src Reading c) x"
proof -
  have "task_step s auth h (ModbusTask port src (Dispatching req) (c\<lparr>incoming := r\<rparr>))
      h1 (if b then ModbusTask port src Reading c1 else Done (conn_close c1))"
    using assms(6) replies [OF assms(4,5)] reply_fails [OF assms(4,5)] by (cases b) simp_all
  then show ?thesis
    by (rule task_runs_step [OF admitted_step [OF assms(1-3)] task_runs_step [OF _ assms(7)]])
qed

lemma modbus_loop_runs:
  assumes "wf_store h s" and "modbus_loop (Some s) auth port src h c = Some (h', c')"
  shows "task_runs s auth (h, ModbusTask port src Reading c) (h', Done (conn_close c'))"
  using assms
proof (induction "length (pending (incoming c))" arbitrary: h c rule: less_induct)
  case less
  note loop = modbus_loop.simps [of "Some s" auth port src h c]
  obtain o' r where rd: "ReadRequest port (incoming c) = (o', r)" by fastforce
  show ?case
  proof (cases o')
    case (Ok req)
    with rd have rd: "ReadRequest port (incoming c) = (Ok req, r)" by simp
    let ?sends = "\<lambda>pdu. conn_write (c\<lparr>incoming := r\<rparr>) (BuildResponse req pdu)"
    from modbus_frames.decode_shrinks [OF rd]
    have shrink: "length (pending (incoming (snd (?sends pdu)))) < length (pending (incoming c))"
      for pdu by simp
    show ?thesis
    proof (rule serve_cases [OF less.prems(1), of auth src req])
      assume n: "\<not> admitted h s auth src req"
        and r: "serve h (Some s) auth src req = Some (h, Refused (refusal h s auth src req))"
      from r less.prems(2) have "modbus_loop (Some s) auth port src h
          (snd (?sends (refusal h s auth src req))) = Some (h', c')" by (simp add: loop rd)
      from less.hyps [OF shrink less.prems(1) this] refused_step [OF less.prems(1) rd n]
      show ?thesis by (rule task_runs_step [rotated])
    next
      fix h1 pdu
      assume a: "admitted h s auth src req" and d: "DispatchMemory h (Some s) req = Some (h1, pdu)"
        and v: "serve h (Some s) auth src req = Some (h1, Served pdu)" "pdu \<noteq> []"
        and t: "touches h s (memory_id req) h1"
      from t have wf: "wf_store h1 s" by (rule touches_wf)
      obtain b c1 where w: "?sends pdu = (b, c1)" by fastforce
      have "task_runs s auth (h1, if b then ModbusTask port src Reading c1 else Done (conn_close c1))
          (h', Done (conn_close c'))"
      proof (cases b)
        case True
        with less.prems(2) v w have "modbus_loop (Some s) auth port src h1 c1 = Some (h', c')"
          by (simp add: loop rd)
        with less.hyps [OF shrink [of pdu] wf] w True show ?thesis by simp
      next
        case False
        with less.prems(2) v w have "h' = h1" "c' = c1" by (simp_all add: loop rd)
        with False show ?thesis by simp
      qed
      then show ?thesis by (rule served_steps [OF less.prems(1) rd a d v(2) w])
    qed
  next
    case (Err e)
    with rd have rd: "ReadRequest port (incoming c) = (Err e, r)" by simp
    with less.prems(2) have "h' = h" "c' = c\<lparr>incoming := r\<rparr>" by (simp_all add: loop)
    with task_runs_step [OF read_fails [OF rd] rtranclp.rtrancl_refl] show ?thesis by simp
  qed (use rd ReadRequest_not_panic [of port "incoming c"] in simp)
qed

lemma raw_loop_runs:
  assumes "wf_store h s" and "raw_loop (Some s) port h c = Some (h', c')"
  shows "task_runs s auth (h, RawTask port c) (h', Done (conn_close c'))"
  using assms
proof (induction "length (pending (incoming c))" arbitrary: h c rule: less_induct)
  case less
  note loop = raw_loop.simps [of "Some s" port h c]
  obtain o' r where rd: "DecodeOne port (incoming c) = (o', r)" by fastforce
  show ?case
  proof (cases o')
    case (Ok pkt)
    with rd have rd: "DecodeOne port (incoming c) = (Ok pkt, r)" by simp
    from apply_packet_safe [OF less.prems(1), of pkt] obtain h1 st where
      ap: "apply_packet h (Some s) pkt = Some (h1, st)" and "touches h s (packet_id pkt) h1" by blast
    then have wf: "wf_store h1 s" by (blast intro: touches_wf)
    let ?c = "snd (conn_write (c\<lparr>incoming := r\<rparr>) [st])"
    from raw_frames.decode_shrinks [OF rd]
    have "length (pending (incoming ?c)) < length (pending (incoming c))" by simp
    moreover have "raw_loop (Some s) port h1 ?c = Some (h', c')"
      using less.prems(2) ap by (simp add: loop rd)
    ultimately show ?thesis using less.hyps [OF _ wf]
      by (blast intro: task_runs_step raw_applies [OF rd ap])
  next
    case (Err e)
    with rd have rd: "DecodeOne port (incoming c) = (Err e, r)" by simp
    with less.prems(2) have "h' = h" "c' = (if e = RawIO EOF then c\<lparr>incoming := r\<rparr>
        else snd (conn_write (c\<lparr>incoming := r\<rparr>) [RespRejected]))" by (simp_all add: loop)
    with task_runs_step [OF raw_fails [OF rd] rtranclp.rtrancl_refl] show ?thesis by simp
  qed (use rd DecodeOne_not_panic [of port "incoming c"] in simp)
qed

lemma accept_runs:
  assumes "wf_store h s" and "accept s auth h c = Some (h', c')"
  shows "task_runs s auth (h, initial_task c) (h', Done c')"
  using assms
  by (auto simp: accept_cases initial_task_def raw_HandleConn_def raw_task_def mb_HandleConn_def
      modbus_task_def Let_def intro: modbus_loop_runs raw_loop_runs split: if_splits option.splits)

lemma task_step_deterministic:
  assumes "task_step s auth h t h1 t1" and "task_step s auth h t h2 t2"
  shows "h1 = h2 \<and> t1 = t2"
proof (cases t)
  case (ModbusTask port src ph c)
  with assms show ?thesis by (cases ph) auto
next
  case (RawTask port c)
  with assms show ?thesis by auto
qed (use assms in simp)

lemma runs_at:
  assumes "task_runs s auth (h, t) (h', t')" and "i < length ts" and "ts ! i = t"
  shows "runs_to s auth \<lparr>sys_heap = h, sys_tasks = ts\<rparr> \<lparr>sys_heap = h', sys_tasks = ts[i := t']\<rparr>"
  using assms
proof (induction "(h', t')" arbitrary: h' t' rule: rtranclp_induct)
  case base
  then show ?case by auto
next
  case (step y)
  obtain h1 t1 where y: "y = (h1, t1)" by fastforce
  with step have to: "runs_to s auth \<lparr>sys_heap = h, sys_tasks = ts\<rparr>
      \<lparr>sys_heap = h1, sys_tasks = ts[i := t1]\<rparr>" and t: "task_step s auth h1 t1 h' t'" by auto
  have "sys_step s auth \<lparr>sys_heap = h1, sys_tasks = ts[i := t1]\<rparr>
      \<lparr>sys_heap = h', sys_tasks = ts[i := t']\<rparr>"
    using runs [of i "\<lparr>sys_heap = h1, sys_tasks = ts[i := t1]\<rparr>" s auth h' t'] t step.prems(1) by simp
  with to show ?case by (rule rtranclp.rtrancl_into_rtrancl)
qed

lemma alone_step:
  "sys_step s auth \<lparr>sys_heap = h, sys_tasks = [t]\<rparr> S' \<longleftrightarrow>
    (\<exists>h' t'. task_step s auth h t h' t' \<and> S' = \<lparr>sys_heap = h', sys_tasks = [t']\<rparr>)"
  using runs [of 0 "\<lparr>sys_heap = h, sys_tasks = [t]\<rparr>" s auth] by (auto elim!: sys_stepE)

lemma task_runs_cases:
  assumes "task_runs s auth (h, t) x"
  obtains "x = (h, t)"
  | h1 t1 where "task_step s auth h t h1 t1" "task_runs s auth (h1, t1) x"
  using assms by (cases rule: converse_rtranclpE) auto

lemma alone_final:
  assumes "runs_to s auth S S'" and "list_all is_done (sys_tasks S')"
    and "S = \<lparr>sys_heap = h, sys_tasks = [t]\<rparr>" and "task_runs s auth (h, t) (h', Done c')"
  shows "S' = \<lparr>sys_heap = h', sys_tasks = [Done c']\<rparr>"
  using assms
proof (induction arbitrary: h t rule: converse_rtranclp_induct)
  case base
  then obtain c where "t = Done c" by (cases t) auto
  with base(2) have "(h', Done c') = (h, t)" using base(3) by (auto elim: task_runs_cases)
  with base(2) show ?case by simp
next
  case (step S S1)
  from step.hyps(1) step.prems(2) obtain h1 t1 where t1: "task_step s auth h t h1 t1"
    "S1 = \<lparr>sys_heap = h1, sys_tasks = [t1]\<rparr>" by (auto simp: alone_step)
  from step.prems(3) have "task_runs s auth (h1, t1) (h', Done c')"
  proof (cases rule: task_runs_cases)
    case 1
    then have "t = Done c'" by simp
    with t1(1) show ?thesis by simp
  next
    case (2 h2 t2)
    with task_step_deterministic [OF t1(1) 2(1)] show ?thesis by simp
  qed
  with step.IH step.prems(1) t1(2) show ?case by blast
qed

end
