(* ===== verification/Linearize.thy ===== *)
theory Linearize
  imports Interleave
begin

text \<open>
  Every schedule of the connections has the effect of some sequence of commands on the abstract
  appliance: the steps that touch the memories are commands, executed one at a time.
\<close>

section \<open>Sequences of commands\<close>

fun exec_all :: "(MemoryID \<times> command) list \<Rightarrow> appliance \<Rightarrow> appliance" where
  "exec_all [] A = A"
| "exec_all ((mid, c) # cs) A = exec_all cs (fst (exec_command A mid c))"

lemma exec_all_snoc: "exec_all (cs @ [(mid, c)]) A = fst (exec_command (exec_all cs A) mid c)"
  by (induction cs A rule: exec_all.induct) simp_all

text \<open>
  The commands in the bytes of a client: of the Modbus requests its address is allowed, of the
  packets.
\<close>

definition mb_sends :: "Authority \<Rightarrow> u16 \<Rightarrow> Addr \<Rightarrow> bytes \<Rightarrow> (MemoryID \<times> command) set" where
  "mb_sends auth port src bs =
     {(memory_id q, command_of (FunctionCode q) (Payload q)) | q pre rest.
        bs = pre @ request_wire q @ rest \<and> request_valid port q \<and>
        Allowed (Evaluate auth (auth_request q src))}"

definition raw_sends :: "u16 \<Rightarrow> bytes \<Rightarrow> (MemoryID \<times> command) set" where
  "raw_sends port bs =
     {(packet_id p, packet_command p) | p pre rest.
        bs = pre @ packet_wire p @ rest \<and> packet_valid port p}"

lemma sends_append:
  "mb_sends auth port src bs \<subseteq> mb_sends auth port src (xs @ bs)"
  "raw_sends port bs \<subseteq> raw_sends port (xs @ bs)"
  unfolding mb_sends_def raw_sends_def by (blast intro: append_assoc [symmetric])+

text \<open>What a task may still do: a request in flight, and what it has not read yet.\<close>

fun sendable :: "Authority \<Rightarrow> task \<Rightarrow> (MemoryID \<times> command) set" where
  "sendable auth (ModbusTask port src Reading c) = mb_sends auth port src (pending (incoming c))"
| "sendable auth (ModbusTask port src (Dispatching req) c) =
     insert (memory_id req, command_of (FunctionCode req) (Payload req))
       (mb_sends auth port src (pending (incoming c)))"
| "sendable auth (RawTask port c) = raw_sends port (pending (incoming c))"
| "sendable auth (Done c) = {}"

lemma read_sends:
  assumes "ReadRequest port q = (Ok req, r)"
  shows "mb_sends auth port src (pending r) \<subseteq> mb_sends auth port src (pending q)"
    and "Allowed (Evaluate auth (auth_request req src)) \<Longrightarrow>
      (memory_id req, command_of (FunctionCode req) (Payload req)) \<in> mb_sends auth port src (pending q)"
proof -
  from modbus_frames.decode_sound [OF assms] have
    d: "request_valid port req" "pending q = request_wire req @ pending r" by simp_all
  then show "mb_sends auth port src (pending r) \<subseteq> mb_sends auth port src (pending q)"
    by (simp add: sends_append)
  show "(memory_id req, command_of (FunctionCode req) (Payload req)) \<in> mb_sends auth port src (pending q)"
    if "Allowed (Evaluate auth (auth_request req src))"
  proof -
    from d(2) have "pending q = [] @ request_wire req @ pending r" by simp
    with d(1) that show ?thesis unfolding mb_sends_def by blast
  qed
qed

lemma decode_sends:
  assumes "DecodeOne port q = (Ok pkt, r)"
  shows "raw_sends port (pending r) \<subseteq> raw_sends port (pending q)"
    and "(packet_id pkt, packet_command pkt) \<in> raw_sends port (pending q)"
proof -
  from raw_frames.decode_sound [OF assms] have
    d: "packet_valid port pkt" "pending q = packet_wire pkt @ pending r" by simp_all
  then show "raw_sends port (pending r) \<subseteq> raw_sends port (pending q)" by (simp add: sends_append)
  show "(packet_id pkt, packet_command pkt) \<in> raw_sends port (pending q)"
  proof -
    from d(2) have "pending q = [] @ packet_wire pkt @ pending r" by simp
    with d(1) show ?thesis unfolding raw_sends_def by blast
  qed
qed

lemma task_step_sendable: "task_step s auth h t h' t' \<Longrightarrow> sendable auth t' \<subseteq> sendable auth t"
proof (induction rule: task_step.induct)
  case (admits port c req r h src)
  then show ?case using read_sends [OF admits.hyps(1)] by simp
next
  case (raw_applies port c pkt r h h' st)
  then show ?case using decode_sends [OF raw_applies.hyps(1)] by simp
qed (auto dest: read_sends(1) [THEN subsetD] dest!: conn_write_pending)

text \<open>One step is no command, or exactly one.\<close>

lemma task_step_command:
  assumes "task_step s auth h t h' t'" and "backed_store h s"
  shows "backed_store h' s \<and> (h' = h \<or>
    (\<exists>mid c. (mid, c) \<in> sendable auth t \<and> abs_store h' s = fst (exec_command (abs_store h s) mid c)))"
proof -
  have disp: "backed_store h' s \<and> abs_store h' s
      = fst (exec_command (abs_store h s) (memory_id req) (command_of (FunctionCode req) (Payload req)))"
    if "DispatchMemory h (Some s) req = Some (h', pdu)" "backed_store h s" for h h' req pdu
    using dispatch_implements [OF that(2), of req] that(1) by (auto simp: implements_def)
  from assms show ?thesis
  proof (induction rule: task_step.induct)
    case (raw_applies port c pkt r h h' st)
    from raw_frames.decode_sound [OF raw_applies.hyps(1)] have v: "packet_valid port pkt" by simp
    from apply_packet_implements [OF raw_applies.prems this] raw_applies.hyps(2)
      decode_sends(2) [OF raw_applies.hyps(1)]
    show ?case by auto (metis fst_conv)
  qed (auto dest: disp)
qed

text \<open>The commands so far explain the state, and are among \<open>K\<close>.\<close>

definition explained :: "Store \<Rightarrow> (MemoryID \<times> command) set \<Rightarrow> appliance \<Rightarrow> Heap \<Rightarrow> bool" where
  "explained s K A h \<longleftrightarrow> backed_store h s \<and> (\<exists>cs. abs_store h s = exec_all cs A \<and> set cs \<subseteq> K)"

lemma explained_start: "backed_store h s \<Longrightarrow> explained s K (abs_store h s) h"
  by (auto simp: explained_def intro: exI [of _ "[]"])

lemma explained_step:
  assumes "task_step s auth h t h' t'" and "explained s K A h" and "sendable auth t \<subseteq> K"
  shows "explained s K A h'"
proof -
  from assms(2) obtain cs where b: "backed_store h s" and cs: "abs_store h s = exec_all cs A"
    "set cs \<subseteq> K" by (auto simp: explained_def)
  from task_step_command [OF assms(1) b] show ?thesis
  proof (elim conjE disjE exE)
    fix mid c
    assume b': "backed_store h' s" and c: "(mid, c) \<in> sendable auth t"
      and e: "abs_store h' s = fst (exec_command (abs_store h s) mid c)"
    from c cs(2) assms(3) have "set (cs @ [(mid, c)]) \<subseteq> K" by auto
    moreover have "abs_store h' s = exec_all (cs @ [(mid, c)]) A" by (simp add: e cs(1) exec_all_snoc)
    ultimately show ?thesis using b' unfolding explained_def by blast
  qed (use assms(2) in simp)
qed

interpretation linear: interference s auth "\<lambda>t. sendable auth t \<subseteq> K" "explained s K A" for s auth K A
  by unfold_locales (blast dest: explained_step task_step_sendable)

text \<open>The commands in the bytes of a connection, under the protocol it is given to.\<close>

definition client_commands :: "Authority \<Rightarrow> Conn \<Rightarrow> (MemoryID \<times> command) set" where
  "client_commands auth c = sendable auth (initial_task c)"

lemma serving_explained:
  assumes "backed_store h s" and "runs_to s auth (serving h conns) S"
  shows "explained s (\<Union>c \<in> set conns. client_commands auth c) (abs_store h s) (sys_heap S)"
proof -
  let ?K = "\<Union>c \<in> set conns. client_commands auth c"
  have calm: "\<forall>t \<in> set (sys_tasks (serving h conns)). sendable auth t \<subseteq> ?K"
    by (auto simp: serving_def client_commands_def)
  have wf: "wf_store (sys_heap (serving h conns)) s"
    using assms(1) by (simp add: backed_store_def serving_def)
  have "explained s ?K (abs_store h s) (sys_heap (serving h conns))"
    by (simp add: serving_def explained_start [OF assms(1)])
  from linear.reach [OF assms(2) wf this calm] show ?thesis by blast
qed

end
