(* ===== verification/Gates.thy ===== *)
theory Gates
  imports Linearize "HOL-Library.Multiset"
begin

text \<open>
  The process after startup: \<open>main\<close> starts one goroutine per gate and blocks, \<open>ListenAndServe\<close>
  (internal/ingress/listener.go) listens, accepts and starts one goroutine per connection. The
  network is a parameter: for every gate the error of its \<open>net.Listen\<close>, or the results its \<open>Accept\<close>
  will return before it blocks for good.
\<close>

section \<open>The order of the policies\<close>

text \<open>
  Whatever order \<open>range\<close> visits the policies in, the authority is the one with the policies installed
  in the order of their identities.
\<close>

lemma installPolicies_sorted:
  assumes "distinct (map fst es)"
  shows "installPolicies es NewAuthority = installPolicies (sort_key fst es) NewAuthority"
proof (rule Authority.equality)
  have "mset (map fst (sort_key fst es)) = mset (map fst es)" by simp
  from mset_eq_imp_distinct_iff [OF this] assms have "distinct (map fst (sort_key fst es))" by simp
  then show "policies (installPolicies es NewAuthority) = policies (installPolicies (sort_key fst es) NewAuthority)"
    by (intro ext installed_order [OF assms]) simp_all
qed simp_all

section \<open>One gate\<close>

datatype accept_result = AcceptError | Accepted Conn

type_synonym 'e network = "IngressGate \<Rightarrow> 'e + accept_result list"

text \<open>Where the goroutine of a gate stands, and what its next step does.\<close>

datatype gate = Listening Listener | Accepting Listener "accept_result list"

datatype 'e gate_step = Blocks | Goes gate | Spawns gate Conn | Returns 'e

fun listener :: "gate \<Rightarrow> Listener" where
  "listener (Listening l) = l"
| "listener (Accepting l q) = l"

fun ListenAndServe :: "'e network \<Rightarrow> gate \<Rightarrow> 'e gate_step" where
  "ListenAndServe net (Listening l) =
     (case net (lis_cfg l) of Inl err \<Rightarrow> Returns err | Inr ln \<Rightarrow> Goes (Accepting l ln))"
| "ListenAndServe net (Accepting l []) = Blocks"
| "ListenAndServe net (Accepting l (AcceptError # ln)) = Goes (Accepting l ln)"
| "ListenAndServe net (Accepting l (Accepted conn # ln)) = Spawns (Accepting l ln) conn"

fun_cases ListenAndServe_Returns: "ListenAndServe net g = Returns e"
  and ListenAndServe_Blocks: "ListenAndServe net g = Blocks"

section \<open>The process\<close>

text \<open>
  How the process ends: \<open>log.Fatalf\<close> with the identifier of the gate, or the runtime of Go, which
  stops a program all of whose goroutines block for good.
\<close>

datatype 'e exit = IngressFailed string 'e | Deadlock

record 'e Process =
  pr_todo :: "IngressGate list"
  pr_gates :: "gate list"
  pr_system :: System
  pr_exit :: "'e exit option"

definition launch :: "IngressGate list \<Rightarrow> Heap \<Rightarrow> 'e Process" where
  "launch gs h = \<lparr>pr_todo = gs, pr_gates = [], pr_system = serving h [], pr_exit = None\<rparr>"

definition spawn :: "Conn \<Rightarrow> System \<Rightarrow> System" where
  "spawn c S = S\<lparr>sys_tasks := sys_tasks S @ [initial_task c]\<rparr>"

inductive process_step :: "'e network \<Rightarrow> Store \<Rightarrow> Authority \<Rightarrow> 'e Process \<Rightarrow> 'e Process \<Rightarrow> bool"
  for net :: "'e network" and s :: Store and auth :: Authority where
  starts: "pr_exit P = None \<Longrightarrow> pr_todo P = g # gs \<Longrightarrow>
    process_step net s auth P
      (P\<lparr>pr_todo := gs, pr_gates := pr_gates P @ [Listening (NewListener g)]\<rparr>)"
| goes: "pr_exit P = None \<Longrightarrow> i < length (pr_gates P) \<Longrightarrow>
    ListenAndServe net (pr_gates P ! i) = Goes g' \<Longrightarrow>
    process_step net s auth P (P\<lparr>pr_gates := (pr_gates P)[i := g']\<rparr>)"
| spawns: "pr_exit P = None \<Longrightarrow> i < length (pr_gates P) \<Longrightarrow>
    ListenAndServe net (pr_gates P ! i) = Spawns g' c \<Longrightarrow>
    process_step net s auth P
      (P\<lparr>pr_gates := (pr_gates P)[i := g'], pr_system := spawn c (pr_system P)\<rparr>)"
| fails: "pr_exit P = None \<Longrightarrow> i < length (pr_gates P) \<Longrightarrow>
    ListenAndServe net (pr_gates P ! i) = Returns e \<Longrightarrow>
    process_step net s auth P
      (P\<lparr>pr_exit := Some (IngressFailed (gate_ID (lis_cfg (listener (pr_gates P ! i)))) e)\<rparr>)"
| serves: "pr_exit P = None \<Longrightarrow> sys_step s auth (pr_system P) S' \<Longrightarrow>
    process_step net s auth P (P\<lparr>pr_system := S'\<rparr>)"
| deadlocks: "pr_exit P = None \<Longrightarrow> pr_todo P = [] \<Longrightarrow> pr_gates P = [] \<Longrightarrow>
    process_step net s auth P (P\<lparr>pr_exit := Some Deadlock\<rparr>)"

inductive_cases process_stepE: "process_step net s auth P P'"

lemmas process_step_cases =
  process_stepE [consumes 1, case_names starts goes spawns fails serves deadlocks]

abbreviation process_runs :: "'e network \<Rightarrow> Store \<Rightarrow> Authority \<Rightarrow> 'e Process \<Rightarrow> 'e Process \<Rightarrow> bool" where
  "process_runs net s auth \<equiv> (process_step net s auth)\<^sup>*\<^sup>*"

text \<open>The connections a gate will be offered.\<close>

fun offered :: "accept_result list \<Rightarrow> Conn list" where
  "offered [] = []"
| "offered (AcceptError # q) = offered q"
| "offered (Accepted c # q) = c # offered q"

definition offers :: "'e network \<Rightarrow> IngressGate \<Rightarrow> accept_result list" where
  "offers net g = (case net g of Inl e \<Rightarrow> [] | Inr q \<Rightarrow> q)"

definition all_offered :: "'e network \<Rightarrow> IngressGate list \<Rightarrow> Conn list" where
  "all_offered net gs = concat (map (\<lambda>g. offered (offers net g)) gs)"

section \<open>The process serves the connections it has accepted\<close>

lemma spawn_steps: "sys_step s auth S S' \<Longrightarrow> sys_step s auth (spawn c S) (spawn c S')"
proof (induction rule: sys_step.induct)
  case (runs i S h' t')
  from runs have "sys_step s auth (spawn c S)
      \<lparr>sys_heap = h', sys_tasks = (sys_tasks (spawn c S))[i := t']\<rparr>"
    by (intro sys_step.runs) (simp_all add: spawn_def nth_append)
  with runs(1) show ?case by (simp add: spawn_def list_update_append)
qed

lemma spawn_serving: "spawn c (serving h cs) = serving h (cs @ [c])"
  by (simp add: spawn_def serving_def)

lemma runs_to_spawn:
  "runs_to s auth (serving h cs) S \<Longrightarrow> runs_to s auth (serving h (cs @ [c])) (spawn c S)"
  unfolding spawn_serving [symmetric]
  by (induction rule: rtranclp_induct) (auto intro: spawn_steps rtranclp.rtrancl_into_rtrancl)

text \<open>What has not been accepted yet.\<close>

fun queued :: "'e network \<Rightarrow> gate \<Rightarrow> Conn list" where
  "queued net (Listening l) = offered (offers net (lis_cfg l))"
| "queued net (Accepting l q) = offered q"

definition waiting :: "'e network \<Rightarrow> 'e Process \<Rightarrow> Conn multiset" where
  "waiting net P = mset (concat (map (queued net) (pr_gates P))) + mset (all_offered net (pr_todo P))"

text \<open>A gate that accepts has listened.\<close>

fun has_listened :: "'e network \<Rightarrow> gate \<Rightarrow> bool" where
  "has_listened net (Listening l) = True"
| "has_listened net (Accepting l q) = (\<not> isl (net (lis_cfg l)))"

definition exit_ok :: "'e network \<Rightarrow> IngressGate list \<Rightarrow> 'e exit option \<Rightarrow> bool" where
  "exit_ok net gs x \<longleftrightarrow>
     (case x of None \<Rightarrow> True
      | Some Deadlock \<Rightarrow> gs = []
      | Some (IngressFailed i e) \<Rightarrow> \<exists>g \<in> set gs. gate_ID g = i \<and> net g = Inl e)"

definition accounts ::
  "'e network \<Rightarrow> Store \<Rightarrow> Authority \<Rightarrow> IngressGate list \<Rightarrow> Heap \<Rightarrow> 'e Process \<Rightarrow> bool" where
  "accounts net s auth gs h P \<longleftrightarrow>
     map (lis_cfg \<circ> listener) (pr_gates P) @ pr_todo P = gs \<and>
     list_all (has_listened net) (pr_gates P) \<and> exit_ok net gs (pr_exit P) \<and>
     (\<exists>conns. mset conns + waiting net P = mset (all_offered net gs) \<and>
        runs_to s auth (serving h conns) (pr_system P))"

lemma accounts_launch: "accounts net s auth gs h (launch gs h)"
  by (auto simp: accounts_def launch_def exit_ok_def waiting_def intro: exI [of _ "[]"])

text \<open>A step of one gate changes only what that gate has queued.\<close>

lemma waiting_update:
  assumes "i < length (pr_gates P)" and "mset (queued net (pr_gates P ! i)) = N + mset (queued net g)"
  shows "waiting net P = N + waiting net (P\<lparr>pr_gates := (pr_gates P)[i := g]\<rparr>)"
proof -
  have "mset (concat (map (queued net) xs)) = N + mset (concat (map (queued net) (xs[i := g])))"
    if "i < length xs" "mset (queued net (xs ! i)) = N + mset (queued net g)" for xs
    using that
  proof (induction xs arbitrary: i)
    case (Cons x xs)
    then show ?case by (cases i) (auto simp: ac_simps)
  qed simp
  from this [OF assms] show ?thesis by (simp add: waiting_def)
qed

lemma ListenAndServe_keeps:
  "ListenAndServe net g = Goes g' \<Longrightarrow> has_listened net g \<Longrightarrow>
    listener g' = listener g \<and> has_listened net g' \<and> queued net g' = queued net g"
  "ListenAndServe net g = Spawns g' c \<Longrightarrow> has_listened net g \<Longrightarrow>
    listener g' = listener g \<and> has_listened net g' \<and> queued net g = c # queued net g'"
  by (induction net g rule: ListenAndServe.induct) (auto simp: offers_def split: sum.splits)

lemma map_update_same: "i < length xs \<Longrightarrow> f y = f (xs ! i) \<Longrightarrow> map f (xs[i := y]) = map f xs"
  by (metis list_update_id map_update)

lemma list_all_update: "list_all P xs \<Longrightarrow> P y \<Longrightarrow> list_all P (xs[i := y])"
  by (induction xs arbitrary: i) (auto split: nat.splits)

lemma accounts_step:
  assumes "process_step net s auth P P'" and "accounts net s auth gs h P"
  shows "accounts net s auth gs h P'"
proof -
  from assms(2) obtain conns where a: "map (lis_cfg \<circ> listener) (pr_gates P) @ pr_todo P = gs"
      "list_all (has_listened net) (pr_gates P)" "exit_ok net gs (pr_exit P)"
    and m: "mset conns + waiting net P = mset (all_offered net gs)"
    and r: "runs_to s auth (serving h conns) (pr_system P)" by (auto simp: accounts_def)
  have ok: "has_listened net (pr_gates P ! i)" if "i < length (pr_gates P)" for i
    using a(2) that by (simp add: list_all_length)
  from assms(1) show ?thesis
  proof (cases rule: process_step_cases)
    case (starts g gs')
    with a m r show ?thesis
      by (auto simp: accounts_def waiting_def NewListener_def all_offered_def ac_simps intro!: exI [of _ conns])
  next
    case (goes i g')
    note k = ListenAndServe_keeps(1) [OF goes(4) ok [OF goes(3)]]
    with waiting_update [OF goes(3), of net "{#}" g'] a m r show ?thesis
      by (auto simp: accounts_def goes(1) map_update_same [OF goes(3)] list_all_update intro!: exI [of _ conns])
  next
    case (spawns i g' c)
    note k = ListenAndServe_keeps(2) [OF spawns(4) ok [OF spawns(3)]]
    from waiting_update [OF spawns(3), of net "{#c#}" g'] k m
    have "mset (conns @ [c]) + waiting net P' = mset (all_offered net gs)"
      by (simp add: spawns(1) waiting_def ac_simps)
    moreover from runs_to_spawn [OF r] have "runs_to s auth (serving h (conns @ [c])) (pr_system P')"
      by (simp add: spawns(1))
    ultimately show ?thesis
      using k a by (auto simp: accounts_def spawns(1) map_update_same [OF spawns(3)] list_all_update
        intro!: exI [of _ "conns @ [c]"])
  next
    case (fails i e)
    from fails(4) have "net (lis_cfg (listener (pr_gates P ! i))) = Inl e"
      by (auto elim!: ListenAndServe_Returns split: sum.splits)
    moreover from a(1) fails(3) have "lis_cfg (listener (pr_gates P ! i)) \<in> set gs" by force
    ultimately show ?thesis using a m r
      by (auto simp: accounts_def fails(1) exit_ok_def waiting_def)
  next
    case (serves S')
    from r serves(3) have "runs_to s auth (serving h conns) S'" by (rule rtranclp.rtrancl_into_rtrancl)
    with a m show ?thesis by (auto simp: accounts_def serves(1) waiting_def)
  next
    case deadlocks
    with a m r show ?thesis by (auto simp: accounts_def exit_ok_def waiting_def)
  qed
qed

lemma accounts_reach:
  "process_runs net s auth (launch gs h) P \<Longrightarrow> accounts net s auth gs h P"
  by (induction rule: rtranclp_induct) (auto intro: accounts_launch accounts_step)

section \<open>The process comes to rest\<close>

text \<open>How many steps are left at most.\<close>

fun accept_work :: "accept_result \<Rightarrow> nat" where
  "accept_work AcceptError = 1"
| "accept_work (Accepted c) = 2 * length (pending (incoming c)) + 2"

fun gate_work :: "'e network \<Rightarrow> gate \<Rightarrow> nat" where
  "gate_work net (Listening l) = 1 + (\<Sum>a\<leftarrow>offers net (lis_cfg l). accept_work a)"
| "gate_work net (Accepting l q) = (\<Sum>a\<leftarrow>q. accept_work a)"

definition launch_work :: "'e network \<Rightarrow> IngressGate list \<Rightarrow> nat" where
  "launch_work net gs = (\<Sum>g\<leftarrow>gs. 2 + (\<Sum>a\<leftarrow>offers net g. accept_work a))"

definition process_work :: "'e network \<Rightarrow> 'e Process \<Rightarrow> nat" where
  "process_work net P = launch_work net (pr_todo P) + sum_list (map (gate_work net) (pr_gates P))
     + sys_work (pr_system P) + (if pr_exit P = None then 1 else 0)"

lemma ListenAndServe_works:
  "ListenAndServe net g = Goes g' \<Longrightarrow> gate_work net g' < gate_work net g"
  "ListenAndServe net g = Spawns g' c \<Longrightarrow>
    gate_work net g' + 2 * length (pending (incoming c)) + 2 = gate_work net g"
  by (induction net g rule: ListenAndServe.induct) (auto simp: offers_def split: sum.splits)

lemma sum_list_update_add:
  "i < length xs \<Longrightarrow> f y + k = f (xs ! i) \<Longrightarrow>
    sum_list (map f (xs[i := y])) + k = (sum_list (map f xs) :: nat)"
  by (induction xs arbitrary: i) (auto split: nat.splits)

lemma process_step_works: "process_step net s auth P P' \<Longrightarrow> process_work net P' < process_work net P"
proof (cases rule: process_step_cases, assumption)
  assume "process_step net s auth P P'"
  fix i g' c
  assume P': "P' = P\<lparr>pr_gates := (pr_gates P)[i := g'], pr_system := spawn c (pr_system P)\<rparr>"
    and i: "i < length (pr_gates P)" and l: "ListenAndServe net (pr_gates P ! i) = Spawns g' c"
  from ListenAndServe_works(2) [OF l]
  have "gate_work net g' + (2 * length (pending (incoming c)) + 2) = gate_work net (pr_gates P ! i)"
    by simp
  from sum_list_update_add [of i "pr_gates P" "gate_work net", OF i this] initial_work [of c]
  show "process_work net P' < process_work net P"
    by (simp add: P' process_work_def spawn_def sys_work_def)
qed (auto simp: process_work_def launch_work_def NewListener_def
    intro!: sum_list_update_less ListenAndServe_works dest: sys_step_works)

lemma process_bounded: "(process_step net s auth ^^ n) P P' \<Longrightarrow> n + process_work net P' \<le> process_work net P"
  by (induction n arbitrary: P') (fastforce dest: process_step_works)+

lemma process_rests: "\<exists>P'. process_runs net s auth P P' \<and> (\<forall>P''. \<not> process_step net s auth P' P'')"
proof (induction "process_work net P" arbitrary: P rule: less_induct)
  case less
  show ?case
  proof (cases "\<exists>P1. process_step net s auth P P1")
    case True
    then obtain P1 where P1: "process_step net s auth P P1" by blast
    from less [OF process_step_works [OF P1]] P1 show ?thesis
      by (blast intro: converse_rtranclp_into_rtranclp)
  qed blast
qed

text \<open>At rest without an exit, every gate waits in \<open>Accept\<close> and every connection is closed.\<close>

lemma at_rest:
  assumes "\<forall>P'. \<not> process_step net s auth P P'" and "pr_exit P = None"
    and "wf_store (sys_heap (pr_system P)) s" and "\<forall>t \<in> set (sys_tasks (pr_system P)). task_ok t"
  shows "pr_todo P = []" and "pr_gates P \<noteq> []"
    and "list_all (\<lambda>g. ListenAndServe net g = Blocks) (pr_gates P)"
    and "list_all is_done (sys_tasks (pr_system P))"
proof -
  show t: "pr_todo P = []"
    using assms(1,2) by (cases "pr_todo P") (blast dest: process_step.starts)+
  with assms(1,2) show "pr_gates P \<noteq> []" by (blast dest: deadlocks)
  have "ListenAndServe net (pr_gates P ! i) = Blocks" if "i < length (pr_gates P)" for i
    using assms(1,2) that
    by (cases "ListenAndServe net (pr_gates P ! i)") (blast dest: process_step.goes process_step.spawns process_step.fails)+
  then show "list_all (\<lambda>g. ListenAndServe net g = Blocks) (pr_gates P)" by (simp add: list_all_length)
  show "list_all is_done (sys_tasks (pr_system P))"
  proof (rule ccontr)
    assume "\<not> list_all is_done (sys_tasks (pr_system P))"
    from sys_step_progress [OF assms(3,4) this, of auth] assms(1,2) show False by (blast dest: process_step.serves)
  qed
qed

text \<open>What a process that has come to rest has done.\<close>

definition outcome_of :: "'e network \<Rightarrow> Store \<Rightarrow> Authority \<Rightarrow> IngressGate list \<Rightarrow> Heap \<Rightarrow> 'e Process \<Rightarrow> bool" where
  "outcome_of net s auth gs h P \<longleftrightarrow>
     (case pr_exit P of
        None \<Rightarrow> gs \<noteq> [] \<and> list_all (\<lambda>g. \<not> isl (net g)) gs \<and>
          (\<exists>conns. mset conns = mset (all_offered net gs) \<and>
             runs_to s auth (serving h conns) (pr_system P) \<and> list_all is_done (sys_tasks (pr_system P)))
      | Some Deadlock \<Rightarrow> gs = []
      | Some (IngressFailed i e) \<Rightarrow> \<exists>g \<in> set gs. gate_ID g = i \<and> net g = Inl e)"

lemma process_serving:
  assumes "process_runs net s auth (launch gs h) P"
  obtains conns where "set conns \<subseteq> set (all_offered net gs)"
    "runs_to s auth (serving h conns) (pr_system P)"
proof -
  from accounts_reach [OF assms] obtain conns where
    "mset conns + waiting net P = mset (all_offered net gs)"
    "runs_to s auth (serving h conns) (pr_system P)" by (auto simp: accounts_def)
  with that [of conns] show thesis by (metis mset_subset_eq_add_left set_mset_mono set_mset_mset)
qed

lemma runs_to_ok:
  assumes "wf_store h s" and "runs_to s auth (serving h conns) S"
  shows "wf_store (sys_heap S) s" and "\<forall>t \<in> set (sys_tasks S). task_ok t"
proof -
  have "wf_store (sys_heap (serving h conns)) s" "\<forall>t \<in> set (sys_tasks (serving h conns)). task_ok t"
    using assms(1) by (simp_all add: serving_def initial_task_ok)
  from well_formed.reach [OF assms(2) this(1) TrueI this(2)]
  show "wf_store (sys_heap S) s" and "\<forall>t \<in> set (sys_tasks S). task_ok t" by simp_all
qed

lemma blocked_gate:
  "ListenAndServe net g = Blocks \<Longrightarrow> has_listened net g \<Longrightarrow> queued net g = [] \<and> \<not> isl (net (lis_cfg (listener g)))"
  by (auto elim!: ListenAndServe_Blocks split: sum.splits)

lemma process_outcome_of:
  assumes "wf_store h s" and "process_runs net s auth (launch gs h) P"
    and "\<forall>P'. \<not> process_step net s auth P P'"
  shows "outcome_of net s auth gs h P"
proof -
  from accounts_reach [OF assms(2)] obtain conns where
    a: "map (lis_cfg \<circ> listener) (pr_gates P) @ pr_todo P = gs"
      "list_all (has_listened net) (pr_gates P)" "exit_ok net gs (pr_exit P)"
    and m: "mset conns + waiting net P = mset (all_offered net gs)"
    and r: "runs_to s auth (serving h conns) (pr_system P)" by (auto simp: accounts_def)
  show ?thesis
  proof (cases "pr_exit P")
    case None
    note rest = at_rest [OF assms(3) None runs_to_ok [OF assms(1) r]]
    have b: "queued net g = [] \<and> \<not> isl (net (lis_cfg (listener g)))" if "g \<in> set (pr_gates P)" for g
      using rest(3) a(2) that blocked_gate by (auto simp: list_all_iff)
    then have "waiting net P = {#}" by (simp add: waiting_def rest(1) all_offered_def)
    with m have "mset conns = mset (all_offered net gs)" by simp
    moreover have "list_all (\<lambda>g. \<not> isl (net g)) gs" using a(1) b by (auto simp: rest(1) list_all_iff)
    moreover have "gs \<noteq> []" using a(1) rest(2) by auto
    ultimately show ?thesis using r rest(4) by (auto simp: outcome_of_def None)
  qed (use a(3) in \<open>simp add: outcome_of_def exit_ok_def\<close>)
qed

lemma launch_work_bound: "process_work net (launch gs h) = launch_work net gs + 1"
  by (simp add: process_work_def launch_def serving_def sys_work_def)

text \<open>When every gate can listen, the process comes to serve all that is offered.\<close>

lemma process_serves:
  assumes "wf_store h s" and "gs \<noteq> []" and "list_all (\<lambda>g. \<not> isl (net g)) gs"
  shows "\<exists>P conns. process_runs net s auth (launch gs h) P \<and> pr_exit P = None \<and>
    mset conns = mset (all_offered net gs) \<and> runs_to s auth (serving h conns) (pr_system P) \<and>
    list_all is_done (sys_tasks (pr_system P))"
proof -
  from process_rests [of net s auth "launch gs h"] obtain P where
    P: "process_runs net s auth (launch gs h) P" "\<forall>P'. \<not> process_step net s auth P P'" by blast
  have no: "\<not> (\<exists>g \<in> set gs. gate_ID g = i \<and> net g = Inl e)" for i e
    using assms(3) by (auto simp: list_all_iff)
  from process_outcome_of [OF assms(1) P] no assms(2)
  have "pr_exit P = None \<and> (\<exists>conns. mset conns = mset (all_offered net gs) \<and>
      runs_to s auth (serving h conns) (pr_system P) \<and> list_all is_done (sys_tasks (pr_system P)))"
    by (auto simp: outcome_of_def split: option.splits exit.splits)
  with P(1) show ?thesis by blast
qed

end
