(* ===== verification/SealDrain.thy ===== *)
theory SealDrain
  imports Interleave
begin

text \<open>
  Sealing an appliance that is serving: requests that are already past the sealing check are still
  carried out. What is left of them is counted, and no request joins them while the memory is sealed.
\<close>

definition sealed_at :: "Store \<Rightarrow> System \<Rightarrow> MemoryID \<Rightarrow> bool" where
  "sealed_at s S mid \<longleftrightarrow>
     (case memory_of (sys_heap S) s mid of None \<Rightarrow> False | Some m \<Rightarrow> is_sealed m)"

definition late_writers :: "System \<Rightarrow> MemoryID \<Rightarrow> nat" where
  "late_writers S mid = length (filter (\<lambda>t. in_flight t mid) (sys_tasks S))"

fun raw_on :: "task \<Rightarrow> MemoryID \<Rightarrow> bool" where
  "raw_on (RawTask port c) mid \<longleftrightarrow> Port mid = port"
| "raw_on _ mid \<longleftrightarrow> False"

text \<open>Runs during which the memory is sealed, with the number of steps that change it.\<close>

inductive sealed_run :: "Store \<Rightarrow> Authority \<Rightarrow> MemoryID \<Rightarrow> System \<Rightarrow> nat \<Rightarrow> System \<Rightarrow> bool"
  for s :: Store and auth :: Authority and mid :: MemoryID and S :: System where
  start: "sealed_at s S mid \<Longrightarrow> sealed_run s auth mid S 0 S"
| continue: "sealed_run s auth mid S n S1 \<Longrightarrow> sys_step s auth S1 S2 \<Longrightarrow> sealed_at s S2 mid \<Longrightarrow>
    sealed_run s auth mid S
      (if memory_of (sys_heap S2) s mid = memory_of (sys_heap S1) s mid then n else Suc n) S2"

lemma filter_update_length:
  "i < length xs \<Longrightarrow> length (filter P (xs[i := y])) + (if P (xs ! i) then 1 else 0)
    = length (filter P xs) + (if P y then 1 else 0)"
proof (induction xs arbitrary: i)
  case (Cons x xs)
  then show ?case using Cons.IH [of "i - 1"] by (cases i) auto
qed simp

lemma task_step_raw_on: "task_step s auth h t h' t' \<Longrightarrow> raw_on t' mid \<Longrightarrow> raw_on t mid"
  by (induction rule: task_step.induct) simp_all

lemma late_writer_leaves:
  "task_step s auth h t h' t' \<Longrightarrow> in_flight t mid \<Longrightarrow> \<not> raw_on t mid \<Longrightarrow> \<not> in_flight t' mid"
  by (induction rule: task_step.induct) simp_all

lemma sealed_step:
  assumes "sys_step s auth S S'" and "wf_store (sys_heap S) s" and "sealed_at s S mid"
    and "\<forall>t \<in> set (sys_tasks S). \<not> raw_on t mid"
  shows "late_writers S' mid +
      (if memory_of (sys_heap S') s mid = memory_of (sys_heap S) s mid then 0 else 1)
      \<le> late_writers S mid \<and>
    (\<forall>t \<in> set (sys_tasks S'). \<not> raw_on t mid) \<and> wf_store (sys_heap S') s"
proof -
  from assms(1) obtain i h' t' where S': "S' = \<lparr>sys_heap = h', sys_tasks = (sys_tasks S)[i := t']\<rparr>"
    and i: "i < length (sys_tasks S)"
    and t: "task_step s auth (sys_heap S) (sys_tasks S ! i) h' t'" by (rule sys_stepE)
  let ?t = "sys_tasks S ! i"
  from assms(4) i have raw: "\<not> raw_on ?t mid" by simp
  from assms(3) obtain m where m: "memory_of (sys_heap S) s mid = Some m" "is_sealed m"
    by (auto simp: sealed_at_def split: option.splits)
  have "in_flight t' mid \<Longrightarrow> in_flight ?t mid" using sealed_stays_out [OF t assms(2) m] by blast
  moreover have "in_flight ?t mid \<and> \<not> in_flight t' mid"
    if "memory_of h' s mid \<noteq> memory_of (sys_heap S) s mid"
    using that task_step_in_flight [OF t assms(2)] touches_other late_writer_leaves [OF t _ raw] by metis
  ultimately have "late_writers S' mid +
      (if memory_of (sys_heap S') s mid = memory_of (sys_heap S) s mid then 0 else 1)
      \<le> late_writers S mid"
    using filter_update_length [OF i, of "\<lambda>t. in_flight t mid" t']
    by (auto simp: late_writers_def S' split: if_splits)
  moreover have "\<forall>t \<in> set (sys_tasks S'). \<not> raw_on t mid"
    using assms(4) task_step_raw_on [OF t] raw set_update_subset_insert [of "sys_tasks S" i t']
    by (auto simp: S')
  moreover from task_step_in_flight [OF t assms(2)] assms(2) have "wf_store (sys_heap S') s"
    by (auto simp: S' intro: touches_wf)
  ultimately show ?thesis by blast
qed

lemma sealed_run_bounded:
  assumes "sealed_run s auth mid S n S'" and "wf_store (sys_heap S) s"
    and "\<forall>t \<in> set (sys_tasks S). \<not> raw_on t mid"
  shows "n + late_writers S' mid \<le> late_writers S mid \<and> sealed_at s S' mid \<and>
    (\<forall>t \<in> set (sys_tasks S'). \<not> raw_on t mid) \<and> wf_store (sys_heap S') s"
  using assms
proof (induction rule: sealed_run.induct)
  case (continue n S1 S2)
  from continue.IH [OF continue.prems] have
    ih: "n + late_writers S1 mid \<le> late_writers S mid" and
    c: "wf_store (sys_heap S1) s" "sealed_at s S1 mid" "\<forall>t \<in> set (sys_tasks S1). \<not> raw_on t mid"
    by simp_all
  from sealed_step [OF continue.hyps(2) c] ih continue.hyps(3) show ?case by (simp split: if_splits)
qed simp

end
