(* ===== verification/SystemClaims.thy ===== *)
theory SystemClaims
  imports Examples Gates SealDrain
begin

text \<open>
  The properties of the whole appliance: connections served at the same time, access control and
  sealing from the configuration to the memories, and the classification of connections.
\<close>

text \<open>A network in which every gate can listen and, after an error, is offered the same connections.\<close>

definition ex_net :: "Conn list \<Rightarrow> unit network" where
  "ex_net cs = (\<lambda>g. Inr (AcceptError # map Accepted cs))"

lemma ex_all_offered: "set (all_offered (ex_net cs) (cfg_Ingress (ex_cfg ds))) = set cs"
proof -
  have "offered (map Accepted cs) = cs" by (induction cs) simp_all
  then show ?thesis by (simp add: all_offered_def offers_def ex_net_def ex_cfg_def)
qed

lemma ex_process: "\<exists>h s auth P. startup (Some (ex_cfg [ex_def])) = Ok (h, s, auth) \<and>
    process_runs (ex_net cs) s auth (launch (cfg_Ingress (ex_cfg [ex_def])) h) P \<and>
    list_all is_done (sys_tasks (pr_system P))"
proof -
  from ex_startup obtain h s auth where st: "startup (Some (ex_cfg [ex_def])) = Ok (h, s, auth)"
    by blast
  from process_serves [OF started(1) [OF st], of "cfg_Ingress (ex_cfg [ex_def])" "ex_net cs" auth] st
  show ?thesis by (auto simp: ex_net_def ex_cfg_def)
qed

section \<open>Serving many connections\<close>

text \<open>C8: whatever the clients send and however the connections are scheduled, no step panics, every
  connection that is not closed can take its next step whatever the others do, the appliance can
  always go on until every connection is closed, the store stays well formed, and the number of
  steps is bounded by the bytes the clients send.\<close>

theorem concurrent_service:
  assumes "wf_store h s"
  shows "(runs_to s auth (serving h conns) S \<longrightarrow>
      wf_store (sys_heap S) s \<and>
      list_all (\<lambda>t. is_done t \<or> (\<exists>h' t'. task_step s auth (sys_heap S) t h' t')) (sys_tasks S) \<and>
      (\<exists>S'. runs_to s auth S S' \<and> list_all is_done (sys_tasks S'))) \<and>
    ((sys_step s auth ^^ n) (serving h conns) S \<longrightarrow>
      n \<le> (\<Sum>c\<leftarrow>conns. 2 * length (pending (incoming c)) + 1))"
proof -
  have ok: "\<forall>t \<in> set (sys_tasks (serving h conns)). task_ok t"
    by (simp add: serving_def initial_task_ok)
  have wf: "wf_store (sys_heap (serving h conns)) s" using assms by (simp add: serving_def)
  have "n \<le> (\<Sum>c\<leftarrow>conns. 2 * length (pending (incoming c)) + 1)"
    if "(sys_step s auth ^^ n) (serving h conns) S"
    using runs_bounded [OF that] serving_work [of h conns] by linarith
  moreover have "wf_store (sys_heap S) s \<and> (\<forall>t \<in> set (sys_tasks S). task_ok t)"
    if "runs_to s auth (serving h conns) S"
    using well_formed.reach [OF that wf TrueI ok] by blast
  moreover have "is_done t \<or> (\<exists>h' t'. task_step s auth (sys_heap S) t h' t')"
    if "wf_store (sys_heap S) s" "task_ok t" for t
    using task_step_progress [OF that(1), of auth t] that(2) by auto
  ultimately show ?thesis using runs_to_completion by (simp add: list_all_iff)
qed

theorem concurrent_service_witness:
  "\<exists>S. runs_to ex_store ex_auth (serving (ex_heap 0)
      [ex_conn [0x52, 0x49, 1], ex_conn (request_wire (ex_request 3 (read_payload 0 1)))]) S \<and>
    wf_store (sys_heap S) ex_store \<and> list_all is_done (sys_tasks S)"
  using concurrent_service [OF ex_store_wf, of ex_auth 0
      "[ex_conn [0x52, 0x49, 1], ex_conn (request_wire (ex_request 3 (read_payload 0 1)))]"]
  by blast

text \<open>C10: a connection that is alone does exactly what its handler does when it is run to the end: the
  interleaved steps have one outcome, the heap and the connection the handler returns.\<close>

theorem alone_is_handler:
  assumes "wf_store h s"
  shows "runs_to s auth (serving h [c]) S \<and> list_all is_done (sys_tasks S) \<longleftrightarrow>
    (\<exists>h' c'. accept s auth h c = Some (h', c') \<and> S = \<lparr>sys_heap = h', sys_tasks = [Done c']\<rparr>)"
proof -
  from accept_invariant [OF assms TrueI, of c auth] obtain h' c' where
    a: "accept s auth h c = Some (h', c')" and "closed c'" by blast
  note r = accept_runs [OF assms a]
  have one: "serving h [c] = \<lparr>sys_heap = h, sys_tasks = [initial_task c]\<rparr>" by (simp add: serving_def)
  have "runs_to s auth (serving h [c]) \<lparr>sys_heap = h', sys_tasks = [Done c']\<rparr>"
    using runs_at [OF r, of 0 "[initial_task c]"] by (simp add: one)
  with a \<open>closed c'\<close> have "runs_to s auth (serving h [c]) S \<and> list_all is_done (sys_tasks S)"
    if "S = \<lparr>sys_heap = h', sys_tasks = [Done c']\<rparr>" using that by simp
  moreover have "S = \<lparr>sys_heap = h', sys_tasks = [Done c']\<rparr>"
    if "runs_to s auth (serving h [c]) S" "list_all is_done (sys_tasks S)"
    by (rule alone_final [OF that one r])
  ultimately show ?thesis using a by auto
qed

theorem alone_is_handler_witness:
  "\<exists>h' c'. accept ex_store ex_auth (ex_heap 0) (ex_conn [0x52, 0x49]) = Some (h', c') \<and>
    runs_to ex_store ex_auth (serving (ex_heap 0) [ex_conn [0x52, 0x49]])
      \<lparr>sys_heap = h', sys_tasks = [Done c']\<rparr>"
proof -
  from accept_invariant [OF ex_store_wf TrueI] obtain h' c' where
    "accept ex_store ex_auth (ex_heap 0) (ex_conn [0x52, 0x49]) = Some (h', c')" by blast
  with alone_is_handler [OF ex_store_wf, of ex_auth 0 "ex_conn [0x52, 0x49]"] show ?thesis by blast
qed



section \<open>Access control\<close>

text \<open>A client that cannot change a memory: it is on another port, or it speaks Modbus and the
  configuration permits its address no writing function code there.\<close>

definition harmless :: "IngressGate list \<Rightarrow> MemoryID \<Rightarrow> Conn \<Rightarrow> bool" where
  "harmless gs mid c \<longleftrightarrow>
     (\<forall>lp. local_port c = Some lp \<longrightarrow> Port mid = of_nat lp \<longrightarrow>
        take 2 (pending (incoming c)) \<noteq> [0x52, 0x49] \<and>
        (\<forall>ip src fc. remote_ip c = Some ip \<longrightarrow> ParseAddr ip = Some src \<longrightarrow> fc \<in> {5, 6, 15, 16} \<longrightarrow>
           \<not> config_permits gs mid src fc))"

text \<open>C4: in a process that started from a configuration, a memory is what the configuration declares at
  every moment, whatever its gates are offered and however its goroutines are scheduled, as long as
  no connection is raw ingest on the port of the memory or comes from a source its rules permit a
  writing function code.\<close>

theorem denied_memory_never_changes:
  assumes "startup (Some cfg) = Ok (h, s, auth)"
    and "process_runs net s auth (launch (cfg_Ingress cfg) h) P"
    and "\<forall>c \<in> set (all_offered net (cfg_Ingress cfg)). harmless (cfg_Ingress cfg) mid c"
  shows "memory_of (sys_heap (pr_system P)) s mid
    = map_option memory_from (map_of (declared (cfg_Ingress cfg)) mid)"
proof -
  note st = started [OF assms(1)]
  from process_serving [OF assms(2)] obtain conns where
    sub: "set conns \<subseteq> set (all_offered net (cfg_Ingress cfg))"
    and r: "runs_to s auth (serving h conns) (pr_system P)" .
  have "\<not> may_write auth (initial_task c) mid" if "harmless (cfg_Ingress cfg) mid c" for c
    using that
    by (auto simp: initial_task_def raw_task_def modbus_task_def may_admit_def writing_codes_def
        harmless_def st(3) split: option.splits)
  with assms(3) sub have "\<forall>t \<in> set (sys_tasks (serving h conns)). \<not> may_write auth t mid"
    by (auto simp: serving_def)
  from unpermitted.reach [OF r _ refl this] st(1) have
    "memory_of (sys_heap (pr_system P)) s mid = memory_of h s mid" by (simp add: serving_def)
  with st(2) show ?thesis by simp
qed

lemma ex_denied: "list_all (\<lambda>fc. \<not> config_permits (cfg_Ingress (ex_cfg [ex_def])) ex_id (AddrV4 0x0A000001) fc)
    [5, 6, 15, 16]"
  by code_simp

theorem denied_memory_never_changes_witness:
  "\<exists>h s auth P. startup (Some (ex_cfg [ex_def])) = Ok (h, s, auth) \<and>
    process_runs (ex_net [(ex_conn (request_wire (ex_request 5 (read_payload 0 0xFF00))))
        \<lparr>remote_ip := Some ''10.0.0.1''\<rparr>]) s auth (launch (cfg_Ingress (ex_cfg [ex_def])) h) P \<and>
    list_all is_done (sys_tasks (pr_system P)) \<and>
    memory_of (sys_heap (pr_system P)) s ex_id = Some (memory_from ex_def)"
proof -
  let ?c = "(ex_conn (request_wire (ex_request 5 (read_payload 0 0xFF00))))\<lparr>remote_ip := Some ''10.0.0.1''\<rparr>"
  from ex_process [of "[?c]"] obtain h s auth P where
    P: "startup (Some (ex_cfg [ex_def])) = Ok (h, s, auth)"
      "process_runs (ex_net [?c]) s auth (launch (cfg_Ingress (ex_cfg [ex_def])) h) P"
      "list_all is_done (sys_tasks (pr_system P))" by blast
  have "ParseAddr ''10.0.0.1'' = Some (AddrV4 0x0A000001)"
    "take 2 (pending (incoming ?c)) \<noteq> [0x52, 0x49]"
    and d: "map_of (declared (cfg_Ingress (ex_cfg [ex_def]))) ex_id = Some ex_def" by code_simp+
  then have "\<forall>c \<in> set (all_offered (ex_net [?c]) (cfg_Ingress (ex_cfg [ex_def]))).
      harmless (cfg_Ingress (ex_cfg [ex_def])) ex_id c"
    using ex_denied by (auto simp: harmless_def ex_all_offered)
  from denied_memory_never_changes [OF P(1,2) this] d P show ?thesis by auto
qed

section \<open>Sealing\<close>

text \<open>C17: from any moment at which a memory is sealed and no connection is past the sealing check on it
  with a write or is raw ingest on its port, no run of the appliance changes the memory.\<close>

theorem sealed_memory_stays:
  assumes "wf_store (sys_heap S) s" and "memory_of (sys_heap S) s mid = Some m" and "is_sealed m"
    and "\<forall>t \<in> set (sys_tasks S). \<not> in_flight t mid" and "runs_to s auth S S'"
  shows "memory_of (sys_heap S') s mid = Some m"
  using sealed.reach [OF assms(5,1) _ assms(4)] assms(2,3) by blast

theorem sealed_memory_stays_witness:
  "\<exists>S. runs_to ex_store ex_auth (serving (ex_heap 0)
      [ex_conn (request_wire (ex_request 5 (read_payload 0 0xFF00)))]) S \<and>
    list_all is_done (sys_tasks S) \<and> memory_of (sys_heap S) ex_store ex_id = Some (ex_memory 0)"
proof -
  let ?c = "ex_conn (request_wire (ex_request 5 (read_payload 0 0xFF00)))"
  from serving_completes [OF ex_store_wf] obtain S where
    S: "runs_to ex_store ex_auth (serving (ex_heap 0) [?c]) S" "list_all is_done (sys_tasks S)" by blast
  have "is_sealed (ex_memory 0)" "take 2 (pending (incoming ?c)) \<noteq> [0x52, 0x49]" by code_simp+
  then have "\<forall>t \<in> set (sys_tasks (serving (ex_heap 0) [?c])). \<not> in_flight t ex_id"
    by (simp add: serving_def initial_task_def modbus_task_def split: option.splits)
  from sealed_memory_stays [OF _ _ \<open>is_sealed (ex_memory 0)\<close> this S(1)]
  have "memory_of (sys_heap S) ex_store ex_id = Some (ex_memory 0)"
    by (simp add: serving_def ex_store_wf ex_memory_of)
  with S show ?thesis by blast
qed

text \<open>C3: a memory that the configuration declares with a sealing bit starts sealed: until a raw ingest
  client connects to its port it stays as built at every moment of the process, and every Modbus
  request to it is refused with Device Busy, from whatever source and whatever the rules permit.\<close>

theorem configured_seal_holds:
  assumes "startup (Some cfg) = Ok (h, s, auth)"
    and "map_of (declared (cfg_Ingress cfg)) mid = Some d" and "md_StateSealing d \<noteq> None"
    and "\<forall>c \<in> set (all_offered net (cfg_Ingress cfg)).
      take 2 (pending (incoming c)) = [0x52, 0x49] \<longrightarrow>
      (\<forall>lp. local_port c = Some lp \<longrightarrow> Port mid \<noteq> of_nat lp)"
    and "process_runs net s auth (launch (cfg_Ingress cfg) h) P" and "memory_id req = mid"
  shows "memory_of (sys_heap (pr_system P)) s mid = Some (memory_from d) \<and>
    serve (sys_heap (pr_system P)) (Some s) auth src req
      = Some (sys_heap (pr_system P), Refused (BuildExceptionPDU (FunctionCode req) 0x06))"
proof -
  note m = started_sealed [OF assms(1-3)] and wf = started(1) [OF assms(1)]
  from process_serving [OF assms(5)] obtain conns where
    sub: "set conns \<subseteq> set (all_offered net (cfg_Ingress cfg))"
    and r: "runs_to s auth (serving h conns) (pr_system P)" .
  have "\<not> in_flight (initial_task c) mid" if "c \<in> set conns" for c
    using assms(4) that sub
    by (auto simp: initial_task_def raw_task_def modbus_task_def split: option.splits)
  then have "\<forall>t \<in> set (sys_tasks (serving h conns)). \<not> in_flight t mid" by (simp add: serving_def)
  from sealed.reach [OF r _ _ this, of "memory_from d"] m wf
  have "wf_store (sys_heap (pr_system P)) s"
    "memory_of (sys_heap (pr_system P)) s mid = Some (memory_from d)" by (simp_all add: serving_def)
  with m(2) assms(6) show ?thesis by (simp add: serve_eq admitted_def refusal_def)
qed

theorem configured_seal_holds_witness:
  "\<exists>h s auth P. startup (Some (ex_cfg [ex_def])) = Ok (h, s, auth) \<and>
    process_runs (ex_net [ex_conn (request_wire (ex_request 5 (read_payload 0 0xFF00)))]) s auth
      (launch (cfg_Ingress (ex_cfg [ex_def])) h) P \<and>
    list_all is_done (sys_tasks (pr_system P)) \<and>
    memory_of (sys_heap (pr_system P)) s ex_id = Some (memory_from ex_def)"
proof -
  let ?c = "ex_conn (request_wire (ex_request 5 (read_payload 0 0xFF00)))"
  from ex_process [of "[?c]"] obtain h s auth P where
    P: "startup (Some (ex_cfg [ex_def])) = Ok (h, s, auth)"
      "process_runs (ex_net [?c]) s auth (launch (cfg_Ingress (ex_cfg [ex_def])) h) P"
      "list_all is_done (sys_tasks (pr_system P))" by blast
  have "take 2 (pending (incoming ?c)) \<noteq> [0x52, 0x49]"
    "map_of (declared (cfg_Ingress (ex_cfg [ex_def]))) ex_id = Some ex_def"
    "memory_id (ex_request 3 []) = ex_id" by code_simp+
  with configured_seal_holds [OF P(1), of ex_id ex_def "ex_net [?c]" P "ex_request 3 []"] P(2)
  have "memory_of (sys_heap (pr_system P)) s ex_id = Some (memory_from ex_def)"
    by (simp add: ex_def_def ex_all_offered)
  with P show ?thesis by blast
qed












section \<open>Classification\<close>

text \<open>C34: a connection is raw ingest exactly when its first two bytes are those of the magic, so a Modbus
  client whose first request carries the transaction identifier 0x5249 is taken for a raw ingest
  client: it gets one rejection byte instead of a reply, the connection is closed, and nothing it
  sends after that is served. With any other identifier the connection is served as Modbus.\<close>

theorem modbus_misrouted:
  assumes "request_valid port q" and "ProtocolID q = 0" and "writable c"
    and "incoming c = \<lparr>pending = request_wire q @ rest, final = EOF\<rparr>" and "local_port c = Some lp"
  shows "if TransactionID q = 0x5249
    then \<exists>c'. accept s auth h c = Some (h, c') \<and> sent c' = sent c @ [[1]] \<and> closed c'
    else accept s auth h c = mb_HandleConn h (Some s) auth c"
proof -
  obtain xs where wire: "request_wire q = be16_bytes (TransactionID q) @ 0 # 0 # xs"
    by (simp add: request_wire_def assms(2) be16_bytes_def)
  have two: "take 2 (pending (incoming c)) = be16_bytes (TransactionID q)"
    "\<not> length (pending (incoming c)) < 2"
    by (simp_all add: assms(4) wire be16_bytes_def)
  have magic: "be16_bytes t = [0x52, 0x49] \<longleftrightarrow> t = 0x5249" for t
  proof
    assume "be16_bytes t = [0x52, 0x49]"
    with be16_of_bytes [of t] show "t = 0x5249" by (simp add: be16_def)
  qed (simp add: be16_bytes_def)
  show ?thesis
  proof (cases "TransactionID q = 0x5249")
    case True
    with magic wire assms(4) have p: "pending (incoming c) = 0x52 # 0x49 # 0 # 0 # xs @ rest"
      and x: "final (incoming c) = EOF" by simp_all
    obtain e r where d: "DecodeOne (of_nat lp) (incoming c) = (Err e, r)" "e \<noteq> RawIO EOF"
      by (cases "length xs + length rest < 6")
         (simp_all add: DecodeOne_def ReadFull_def p x headerLen_def Magic0_def Magic1_def Version1_def)
    have w: "writable (c\<lparr>incoming := r\<rparr>)" using assms(3) by (simp add: writable_def)
    show ?thesis
      using True d writable_write(3) [OF w, of "[RespRejected]"]
      by (simp add: accept_cases two magic raw_HandleConn_def assms(5) raw_loop.simps conn_close_def
          RespRejected_def)
  qed (simp add: accept_cases two magic)
qed

theorem modbus_misrouted_witness:
  "\<exists>c'. accept ex_store ex_auth (ex_heap 1)
      (ex_conn (request_wire ((ex_request 3 (read_payload 0 1))\<lparr>TransactionID := 0x5249\<rparr>)))
    = Some (ex_heap 1, c') \<and> sent c' = [[1]] \<and> closed c'"
proof -
  let ?q = "(ex_request 3 (read_payload 0 1))\<lparr>TransactionID := 0x5249\<rparr>"
  have v: "request_valid 502 ?q"
    using ex_request_valid [of "read_payload 0 1" 3] by (simp add: request_valid_def)
  show ?thesis
    using modbus_misrouted [OF v, of "ex_conn (request_wire ?q)" "[]" 502 ex_store ex_auth "ex_heap 1"]
    by (simp add: ex_conn_def writable_def ex_request_def)
qed

end
