(* ===== verification/GateClaims.thy ===== *)
theory GateClaims
  imports Examples Gates
begin

text \<open>
  The properties of the process: its gates, and how it ends.
\<close>



text \<open>C19: one gate that cannot listen takes the whole process down. Validation does not compare the
  addresses of the gates: when two gates of a configuration that started share an address, and the
  network gives an address to one listener at a time, every schedule ends with the process exiting,
  whatever the gate that could listen is serving.\<close>

theorem shared_address_exits:
  assumes "startup (Some cfg) = Ok (h, s, auth)"
    and "g1 \<in> set (cfg_Ingress cfg)" and "g2 \<in> set (cfg_Ingress cfg)" and "g1 \<noteq> g2"
    and "gate_Listen g1 = gate_Listen g2"
    and "\<And>g g'. g \<noteq> g' \<Longrightarrow> gate_Listen g = gate_Listen g' \<Longrightarrow> isl (net g) \<or> isl (net g')"
    and "process_runs net s auth (launch (cfg_Ingress cfg) h) P"
    and "\<forall>P'. \<not> process_step net s auth P P'"
  shows "\<exists>g e. g \<in> set (cfg_Ingress cfg) \<and> net g = Inl e \<and>
    pr_exit P = Some (IngressFailed (gate_ID g) e)"
proof -
  from assms(4-6) have "isl (net g1) \<or> isl (net g2)" by blast
  with assms(2,3) have "\<not> list_all (\<lambda>g. \<not> isl (net g)) (cfg_Ingress cfg)" "cfg_Ingress cfg \<noteq> []"
    by (auto simp: list_all_iff)
  with process_outcome_of [OF started(1) [OF assms(1)] assms(7,8)] show ?thesis
    by (auto simp: outcome_of_def split: option.splits exit.splits)
qed

definition ex_shared :: Config where
  "ex_shared =
     \<lparr>cfg_Ingress =
        [\<lparr>gate_ID = ''a'', gate_Listen = ''0.0.0.0:502'', gate_Memory = [ex_def]\<rparr>,
         \<lparr>gate_ID = ''b'', gate_Listen = ''0.0.0.0:502'', gate_Memory = []\<rparr>],
      cfg_Memories = []\<rparr>"

text \<open>The gate \<open>b\<close> gets the address.\<close>

definition ex_first :: "IngressGate \<Rightarrow> unit + accept_result list" where
  "ex_first g = (if gate_ID g = ''b'' \<and> gate_Memory g = [] then Inr [] else Inl ())"

theorem shared_address_exits_witness:
  "\<exists>h s auth P. startup (Some ex_shared) = Ok (h, s, auth) \<and>
    process_runs ex_first s auth (launch (cfg_Ingress ex_shared) h) P \<and>
    pr_exit P = Some (IngressFailed ''a'' ())"
proof -
  have "is_ok (startup (Some ex_shared))" by code_simp
  then obtain h s auth where st: "startup (Some ex_shared) = Ok (h, s, auth)"
    by (auto simp: is_ok_iff)
  from process_rests [of ex_first s auth "launch (cfg_Ingress ex_shared) h"] obtain P where
    P: "process_runs ex_first s auth (launch (cfg_Ingress ex_shared) h) P"
      "\<forall>P'. \<not> process_step ex_first s auth P P'" by blast
  let ?g = "\<lambda>i ds. \<lparr>gate_ID = i, gate_Listen = ''0.0.0.0:502'', gate_Memory = ds\<rparr>"
  have one: "isl (ex_first g) \<or> isl (ex_first g')"
    if "g \<noteq> g'" "gate_Listen g = gate_Listen g'" for g g' :: IngressGate
    using that by (cases g, cases g') (auto simp: ex_first_def)
  have gs: "cfg_Ingress ex_shared = [?g ''a'' [ex_def], ?g ''b'' []]" by (simp add: ex_shared_def)
  then have "?g ''a'' [ex_def] \<in> set (cfg_Ingress ex_shared)" "?g ''b'' [] \<in> set (cfg_Ingress ex_shared)"
    "?g ''a'' [ex_def] \<noteq> ?g ''b'' []" "gate_Listen (?g ''a'' [ex_def]) = gate_Listen (?g ''b'' [])"
    by simp_all
  from shared_address_exits [OF st this one P] obtain g e where
    g: "g \<in> set (cfg_Ingress ex_shared)" "ex_first g = Inl e"
      "pr_exit P = Some (IngressFailed (gate_ID g) e)" by blast
  from g(1) consider "g = ?g ''a'' [ex_def]" | "g = ?g ''b'' []" unfolding gs by auto
  then have "gate_ID g = ''a''" using g(2) by cases (simp_all add: ex_first_def)
  with g(3) have "pr_exit P = Some (IngressFailed ''a'' ())" by simp
  with st P show ?thesis by blast
qed

end
