(* ===== verification/Simulation.thy ===== *)
theory Simulation
  imports Mma_Prelude
begin

text \<open>
  The contract of a forward simulation between two step relations: a step of the first is answered by
  steps of the second that restore the relation. It turns facts about single steps into facts about
  runs, wherever one account of the appliance is compared with another.
\<close>

locale simulation =
  fixes cstep :: "'c \<Rightarrow> 'c \<Rightarrow> bool" and astep :: "'a \<Rightarrow> 'a \<Rightarrow> bool" and rel :: "'c \<Rightarrow> 'a \<Rightarrow> bool"
  assumes sim: "rel c a \<Longrightarrow> cstep c c' \<Longrightarrow> \<exists>a'. astep\<^sup>*\<^sup>* a a' \<and> rel c' a'"
begin

lemma runs:
  assumes "cstep\<^sup>*\<^sup>* c c'" and "rel c a"
  shows "\<exists>a'. astep\<^sup>*\<^sup>* a a' \<and> rel c' a'"
  using assms by (induction rule: rtranclp_induct) (blast, meson sim rtranclp_trans)

end

end
