(* ===== verification/Replies.thy ===== *)
theory Replies
  imports Sessions Linearize Simulation
begin

text \<open>
  The appliance as its clients see it, all at once: every client is the list of its requests and the
  replies it has received, and a step checks one request, executes one command, or ingests one
  packet. The connections over bytes have exactly the behaviours of this machine.
\<close>

section \<open>The frames in a stream\<close>

fun frames_upto :: "(Reader \<Rightarrow> ('e, 'f) outcome \<times> Reader) \<Rightarrow> nat \<Rightarrow> Reader \<Rightarrow> 'f list" where
  "frames_upto decode 0 r = []"
| "frames_upto decode (Suc n) r =
     (case decode r of (Ok f, r') \<Rightarrow> f # frames_upto decode n r' | _ \<Rightarrow> [])"

text \<open>Every frame has a byte, so the length of the stream is fuel enough.\<close>

definition frames_in :: "(Reader \<Rightarrow> ('e, 'f) outcome \<times> Reader) \<Rightarrow> Reader \<Rightarrow> 'f list" where
  "frames_in decode r = frames_upto decode (length (pending r)) r"

context frame_decoder
begin

lemma frames_upto_enough: "length (pending r) \<le> n \<Longrightarrow> frames_upto decode n r = frames_in decode r"
proof (induction n arbitrary: r rule: less_induct)
  case (less n)
  show ?case
  proof (cases "\<exists>f r'. decode r = (Ok f, r')")
    case True
    then obtain f r' where d: "decode r = (Ok f, r')" by blast
    from decode_shrinks [OF d] obtain k where k: "length (pending r) = Suc k" "length (pending r') \<le> k"
      by (cases "length (pending r)") auto
    from less.prems k(1) obtain m where m: "n = Suc m" "k \<le> m" by (cases n) auto
    from less.IH [of m r'] less.IH [of k r'] k m show ?thesis by (simp add: frames_in_def d)
  next
    case False
    then have "frames_upto decode n r = []" for n
      by (cases n) (auto split: prod.splits outcome.splits)
    then show ?thesis by (simp add: frames_in_def)
  qed
qed

lemma frames_in_step: "decode r = (Ok f, r') \<Longrightarrow> frames_in decode r = f # frames_in decode r'"
  using decode_shrinks [of r f r'] frames_upto_enough [of r "Suc (length (pending r))"]
    frames_upto_enough [of r' "length (pending r)"] by simp

lemma frames_in_stop: "decode r = (Err e, r') \<Longrightarrow> frames_in decode r = []"
  by (cases "length (pending r)") (simp_all add: frames_in_def)

lemma frames_in_wire:
  "\<forall>f \<in> set fs. valid f \<Longrightarrow> frames_in decode \<lparr>pending = concat (map wire fs), final = x\<rparr> = fs"
  by (induction fs) (simp_all add: frames_in_step [OF decode_wire], simp add: frames_in_def)

end

abbreviation requests_in :: "u16 \<Rightarrow> Reader \<Rightarrow> Request list" where
  "requests_in port \<equiv> frames_in (ReadRequest port)"

abbreviation packets_in :: "u16 \<Rightarrow> Reader \<Rightarrow> Packet list" where
  "packets_in port \<equiv> frames_in (DecodeOne port)"

section \<open>The abstract machine\<close>

text \<open>
  A Modbus client: its address, the request that has passed its checks, the requests to come and the
  replies so far. A raw ingest client: the packets to come and the replies so far.
\<close>

datatype client =
    Asker Addr "Request option" "Request list" "bytes list"
  | Feeder "Packet list" "bytes list"

definition passes :: "seal_map \<Rightarrow> Authority \<Rightarrow> Addr \<Rightarrow> appliance \<Rightarrow> Request \<Rightarrow> bool" where
  "passes sd auth src A q \<longleftrightarrow>
     \<not> sealed_in sd A (memory_id q) \<and> Allowed (Evaluate auth (auth_request q src))"

inductive client_step ::
  "seal_map \<Rightarrow> Authority \<Rightarrow> appliance \<Rightarrow> client \<Rightarrow> appliance \<Rightarrow> client \<Rightarrow> bool"
  for sd :: seal_map and auth :: Authority where
  refuses: "\<not> passes sd auth src A q \<Longrightarrow>
    client_step sd auth A (Asker src None (q # qs) out)
      A (Asker src None qs (out @ [BuildResponse q (snd (request_spec sd auth src A q))]))"
| passes: "passes sd auth src A q \<Longrightarrow>
    client_step sd auth A (Asker src None (q # qs) out) A (Asker src (Some q) qs out)"
| executes: "exec_command A (memory_id q) (command_of (FunctionCode q) (Payload q)) = (A', res) \<Longrightarrow>
    client_step sd auth A (Asker src (Some q) qs out)
      A' (Asker src None qs (out @ [BuildResponse q (reply_wire (FunctionCode q) (Payload q) res)]))"
| ingests: "exec_command A (packet_id p) (packet_command p) = (A', res) \<Longrightarrow>
    client_step sd auth A (Feeder (p # ps) out) A' (Feeder ps (out @ [[status_of res]]))"

inductive_cases AskerNone_step: "client_step sd auth A (Asker src None qs out) A' c'"
  and AskerSome_step: "client_step sd auth A (Asker src (Some q) qs out) A' c'"
  and Feeder_step: "client_step sd auth A (Feeder ps out) A' c'"

inductive spec_step ::
  "seal_map \<Rightarrow> Authority \<Rightarrow> appliance \<times> client list \<Rightarrow> appliance \<times> client list \<Rightarrow> bool"
  for sd :: seal_map and auth :: Authority where
  moves: "i < length cs \<Longrightarrow> client_step sd auth A (cs ! i) A' c' \<Longrightarrow>
    spec_step sd auth (A, cs) (A', cs[i := c'])"

inductive_cases spec_stepE: "spec_step sd auth (A, cs) X"

abbreviation spec_runs ::
  "seal_map \<Rightarrow> Authority \<Rightarrow> appliance \<times> client list \<Rightarrow> appliance \<times> client list \<Rightarrow> bool" where
  "spec_runs sd auth \<equiv> (spec_step sd auth)\<^sup>*\<^sup>*"

fun replies_of :: "client \<Rightarrow> bytes list" where
  "replies_of (Asker src q qs out) = out"
| "replies_of (Feeder ps out) = out"

text \<open>A client whose requests have all been answered.\<close>

fun idle :: "client \<Rightarrow> bool" where
  "idle (Asker src q qs out) = (q = None \<and> qs = [])"
| "idle (Feeder ps out) = (ps = [])"

definition client_of :: "Conn \<Rightarrow> client" where
  "client_of c =
     (case initial_task c of
        ModbusTask port src ph c' \<Rightarrow> Asker src None (requests_in port (incoming c)) []
      | RawTask port c' \<Rightarrow> Feeder (packets_in port (incoming c)) []
      | Done c' \<Rightarrow> Feeder [] [])"

lemma client_step_deterministic:
  "client_step sd auth A c A1 c1 \<Longrightarrow> client_step sd auth A c A2 c2 \<Longrightarrow> A1 = A2 \<and> c1 = c2"
  by (induction rule: client_step.induct)
     (auto elim: AskerNone_step AskerSome_step Feeder_step)

lemma idle_stuck: "idle c \<Longrightarrow> \<not> client_step sd auth A c A' c'"
  by (cases c) (auto elim: AskerNone_step Feeder_step)

section \<open>A connection is its client\<close>

text \<open>What has been written on a connection, except for the rejection that ends a raw one.\<close>

definition answered :: "Conn \<Rightarrow> Conn \<Rightarrow> bytes list \<Rightarrow> bool" where
  "answered c0 c out \<longleftrightarrow> writable c \<and> sent c = sent c0 @ out"

fun matches :: "Conn \<Rightarrow> task \<Rightarrow> client \<Rightarrow> bool" where
  "matches c0 (ModbusTask port src Reading c) cl \<longleftrightarrow>
     (\<exists>out. cl = Asker src None (requests_in port (incoming c)) out \<and> answered c0 c out)"
| "matches c0 (ModbusTask port src (Dispatching q) c) cl \<longleftrightarrow>
     (\<exists>out. cl = Asker src (Some q) (requests_in port (incoming c)) out \<and> answered c0 c out)"
| "matches c0 (RawTask port c) cl \<longleftrightarrow>
     (\<exists>out. cl = Feeder (packets_in port (incoming c)) out \<and> answered c0 c out) \<and>
     (\<exists>d. initial_task c0 = RawTask port d)"
| "matches c0 (Done c) cl \<longleftrightarrow>
     idle cl \<and> closed c \<and> (\<exists>tail. sent c = sent c0 @ replies_of cl @ tail \<and>
       (tail = [] \<or> tail = [[RespRejected]] \<and> (\<exists>port d. initial_task c0 = RawTask port d)))"

lemma answered_write:
  assumes "answered c0 c out"
  shows "answered c0 (c\<lparr>incoming := r\<rparr>) out"
    and "conn_write c bs = (b, c') \<Longrightarrow> b \<and> answered c0 c' (out @ [bs]) \<and> incoming c' = incoming c"
    and "answered c0 (snd (conn_write (c\<lparr>incoming := r\<rparr>) bs)) (out @ [bs])"
proof -
  from assms have w: "writable c" and t: "sent c = sent c0 @ out" by (simp_all add: answered_def)
  from w t show a: "answered c0 (c\<lparr>incoming := r\<rparr>) out" by (simp add: answered_def writable_def)
  from writable_write [OF w, of bs] t
  show "conn_write c bs = (b, c') \<Longrightarrow> b \<and> answered c0 c' (out @ [bs]) \<and> incoming c' = incoming c"
    by (auto simp: answered_def dest: conn_write_pending)
  from a writable_write [of "c\<lparr>incoming := r\<rparr>" bs]
  show "answered c0 (snd (conn_write (c\<lparr>incoming := r\<rparr>) bs)) (out @ [bs])" by (simp add: answered_def)
qed

lemma seal_check_sealed_in:
  "wf_store h s \<Longrightarrow> seal_check h (Some s) mid = Ok b \<Longrightarrow> sealed_in (seals h s) (abs_store h s) mid = b"
  by (simp add: seal_check_eq sealed_in_iff)

lemma task_sim_shared:
  assumes "task_step s auth h t h' t'" and "backed_store h s"
  shows "backed_store h' s" and "seals h' s = seals h s"
proof -
  from assms(2) have wf: "wf_store h s" by (simp add: backed_store_def)
  show "backed_store h' s" using task_step_command [OF assms] by blast
  show "seals h' s = seals h s"
    using task_step_in_flight [OF assms(1) wf] touches_seals [OF _ wf] by auto
qed

text \<open>A step of a connection is a step of its client, or the end of the stream.\<close>

definition simulated :: "Store \<Rightarrow> Authority \<Rightarrow> Heap \<Rightarrow> Conn \<Rightarrow> client \<Rightarrow> Heap \<Rightarrow> task \<Rightarrow> bool" where
  "simulated s auth h c0 cl h' t' \<longleftrightarrow>
     (\<exists>cl'. matches c0 t' cl' \<and>
       (client_step (seals h s) auth (abs_store h s) cl (abs_store h' s) cl' \<or>
        h' = h \<and> cl' = cl \<and> idle cl))"

lemma simulatedI:
  "client_step (seals h s) auth (abs_store h s) cl (abs_store h' s) cl' \<Longrightarrow> matches c0 t' cl' \<Longrightarrow>
    simulated s auth h c0 cl h' t'"
  by (auto simp: simulated_def)

lemma simulated_idle: "idle cl \<Longrightarrow> matches c0 t' cl \<Longrightarrow> simulated s auth h c0 cl h t'"
  by (auto simp: simulated_def)

lemma sim_refused:
  assumes "ReadRequest port (incoming c) = (Ok req, r)"
    and "matches c0 (ModbusTask port src Reading c) cl"
    and "\<not> passes (seals h s) auth src (abs_store h s) req"
    and "snd (request_spec (seals h s) auth src (abs_store h s) req) = pdu"
  shows "simulated s auth h c0 cl h (ModbusTask port src Reading
    (snd (conn_write (c\<lparr>incoming := r\<rparr>) (BuildResponse req pdu))))"
proof -
  from assms(2) obtain out where cl: "cl = Asker src None (req # requests_in port r) out"
    and a: "answered c0 c out" by (auto simp: modbus_frames.frames_in_step [OF assms(1)])
  from refuses [OF assms(3)] show ?thesis
    unfolding cl by (rule simulatedI) (use answered_write(3) [OF a] in \<open>simp add: assms(4)\<close>)
qed

lemma task_sim_reading:
  assumes "task_step s auth h (ModbusTask port src Reading c) h' t'" and "wf_store h s"
    and "matches c0 (ModbusTask port src Reading c) cl"
  shows "simulated s auth h c0 cl h' t'"
  using assms(1)
proof (cases rule: task_step.cases)
  case (read_fails e r)
  with assms(3) have "idle cl" "matches c0 t' cl"
    by (auto simp: modbus_frames.frames_in_stop [OF read_fails(3)] answered_def conn_close_def)
  with read_fails(1) show ?thesis by (auto intro: simulated_idle)
next
  case (sealed req r)
  from seal_check_sealed_in [OF assms(2) sealed(4)]
  have "\<not> passes (seals h s) auth src (abs_store h s) req"
    "snd (request_spec (seals h s) auth src (abs_store h s) req) = BuildExceptionPDU (FunctionCode req) 6"
    by (simp_all add: passes_def request_spec_def)
  from sim_refused [OF sealed(3) assms(3) this] show ?thesis by (simp add: sealed(1,2))
next
  case (denied req r)
  from seal_check_sealed_in [OF assms(2) denied(4)] denied(5)
  have "\<not> passes (seals h s) auth src (abs_store h s) req"
    "snd (request_spec (seals h s) auth src (abs_store h s) req)
      = BuildExceptionPDU (FunctionCode req) (ExceptionCode (Evaluate auth (auth_request req src)))"
    by (simp_all add: passes_def request_spec_def)
  from sim_refused [OF denied(3) assms(3) this] show ?thesis by (simp add: denied(1,2))
next
  case (admits req r)
  from assms(3) obtain out where cl: "cl = Asker src None (req # requests_in port r) out"
    and a: "answered c0 c out" by (auto simp: modbus_frames.frames_in_step [OF admits(3)])
  from seal_check_sealed_in [OF assms(2) admits(4)] admits(5)
  have "passes (seals h s) auth src (abs_store h s) req" by (simp add: passes_def)
  from client_step.passes [OF this] show ?thesis
    unfolding admits(1,2) cl by (rule simulatedI) (use answered_write(1) [OF a] in simp)
qed

lemma task_sim_dispatching:
  assumes "task_step s auth h (ModbusTask port src (Dispatching req) c) h' t'" and "backed_store h s"
    and "matches c0 (ModbusTask port src (Dispatching req) c) cl"
  shows "simulated s auth h c0 cl h' t'"
proof -
  from assms(2) have wf: "wf_store h s" by (simp add: backed_store_def)
  from assms(1) obtain pdu where d: "DispatchMemory h (Some s) req = Some (h', pdu)" by auto
  with dispatch_cases [OF wf, of req] have ne: "pdu \<noteq> []" by (metis option.inject prod.inject)
  from dispatch_implements [OF assms(2), of req] d obtain res where
    e: "exec_command (abs_store h s) (memory_id req) (command_of (FunctionCode req) (Payload req))
      = (abs_store h' s, res)" "pdu = reply_wire (FunctionCode req) (Payload req) res"
    by (auto simp: implements_def)
  from assms(3) obtain out where cl: "cl = Asker src (Some req) (requests_in port (incoming c)) out"
    and a: "answered c0 c out" by auto
  obtain b c' where w: "conn_write c (BuildResponse req pdu) = (b, c')" by fastforce
  from answered_write(2) [OF a w] have b and
    c': "answered c0 c' (out @ [BuildResponse req pdu])" "incoming c' = incoming c" by simp_all
  from w \<open>b\<close> have "conn_write c (BuildResponse req pdu) = (True, c')" by simp
  from task_step_deterministic [OF assms(1) replies [OF d ne this]]
  have t': "t' = ModbusTask port src Reading c'" by simp
  from executes [OF e(1)] show ?thesis
    unfolding cl t' by (rule simulatedI) (use c' e(2) in simp)
qed

lemma task_sim_raw:
  assumes "task_step s auth h (RawTask port c) h' t'" and "backed_store h s"
    and "matches c0 (RawTask port c) cl"
  shows "simulated s auth h c0 cl h' t'"
  using assms(1)
proof (cases rule: task_step.cases)
  case (raw_fails e r)
  from assms(3) obtain out where cl: "cl = Feeder [] out" and a: "answered c0 c out"
    and i: "\<exists>d. initial_task c0 = RawTask port d"
    by (auto simp: raw_frames.frames_in_stop [OF raw_fails(3)])
  have "matches c0 t' cl"
    using answered_write(1,3) [OF a, of r] i by (auto simp: raw_fails(2) cl conn_close_def answered_def)
  with cl show ?thesis unfolding raw_fails(1) by (auto intro: simulated_idle)
next
  case (raw_applies pkt r st)
  from raw_frames.decode_sound [OF raw_applies(2)] have "packet_valid port pkt" by simp
  from apply_packet_implements [OF assms(2) this] raw_applies(3) obtain res where
    e: "exec_command (abs_store h s) (packet_id pkt) (packet_command pkt) = (abs_store h' s, res)"
    "st = status_of res" by auto
  from assms(3) obtain out where cl: "cl = Feeder (pkt # packets_in port r) out" and a: "answered c0 c out"
    and i: "\<exists>d. initial_task c0 = RawTask port d"
    by (auto simp: raw_frames.frames_in_step [OF raw_applies(2)])
  from ingests [OF e(1)] show ?thesis
    unfolding cl raw_applies(1)
    by (rule simulatedI) (use answered_write(3) [OF a] i in \<open>simp add: e(2)\<close>)
qed

lemma task_sim:
  assumes "task_step s auth h t h' t'" and "backed_store h s" and "matches c0 t cl"
  shows "simulated s auth h c0 cl h' t'"
proof -
  from assms(2) have wf: "wf_store h s" by (simp add: backed_store_def)
  consider (reading) port src c where "t = ModbusTask port src Reading c"
    | (dispatching) port src req c where "t = ModbusTask port src (Dispatching req) c"
    | (raw) port c where "t = RawTask port c" | (finished) c where "t = Done c"
    by (metis task.exhaust phase.exhaust)
  then show ?thesis
  proof cases
    case reading
    from task_sim_reading [OF assms(1) [unfolded reading] wf assms(3) [unfolded reading]] show ?thesis .
  next
    case dispatching
    from task_sim_dispatching [OF assms(1) [unfolded dispatching] assms(2) assms(3) [unfolded dispatching]]
    show ?thesis .
  next
    case raw
    from task_sim_raw [OF assms(1) [unfolded raw] assms(2) assms(3) [unfolded raw]] show ?thesis .
  qed (use assms(1) in simp)
qed

lemma initial_matches: "writable c \<Longrightarrow> matches c (initial_task c) (client_of c)"
  by (auto simp: client_of_def initial_task_def raw_task_def modbus_task_def answered_def
      conn_close_def split: option.splits)

text \<open>Conversely, what a client can do its connection does.\<close>

lemma task_sim_back:
  assumes "client_step (seals h s) auth (abs_store h s) cl A cl'" and "backed_store h s"
    and "matches c0 t cl"
  shows "\<exists>h' t'. task_step s auth h t h' t' \<and> abs_store h' s = A \<and> matches c0 t' cl'"
proof -
  have "t \<noteq> Done c" for c using assms(1,3) idle_stuck by auto
  with task_step_progress [of h s auth t] assms(2) obtain h' t' where
    t: "task_step s auth h t h' t'" by (auto simp: backed_store_def)
  from task_sim [OF t assms(2,3)] assms(1) idle_stuck [of cl] obtain cl1 where
    "matches c0 t' cl1" "client_step (seals h s) auth (abs_store h s) cl (abs_store h' s) cl1" by (auto simp: simulated_def)
  with client_step_deterministic [OF assms(1) this(2)] t show ?thesis by blast
qed

section \<open>The appliance is the abstract machine\<close>

definition served_as :: "Store \<Rightarrow> seal_map \<Rightarrow> Conn list \<Rightarrow> System \<Rightarrow> appliance \<times> client list \<Rightarrow> bool" where
  "served_as s sd conns S X \<longleftrightarrow>
     backed_store (sys_heap S) s \<and> seals (sys_heap S) s = sd \<and> abs_store (sys_heap S) s = fst X \<and>
     length (sys_tasks S) = length conns \<and> length (snd X) = length conns \<and>
     (\<forall>i < length conns. matches (conns ! i) (sys_tasks S ! i) (snd X ! i))"

lemma served_as_start:
  assumes "backed_store h s" and "\<forall>c \<in> set conns. writable c"
  shows "served_as s (seals h s) conns (serving h conns) (abs_store h s, map client_of conns)"
  using assms by (simp add: served_as_def serving_def initial_matches)

lemma served_as_update:
  assumes "served_as s sd conns S (A, cs)" and "backed_store h' s" and "seals h' s = sd"
    and "i < length conns \<Longrightarrow> matches (conns ! i) t' c'"
  shows "served_as s sd conns \<lparr>sys_heap = h', sys_tasks = (sys_tasks S)[i := t']\<rparr>
    (abs_store h' s, cs[i := c'])"
proof -
  have "matches (conns ! j) ((sys_tasks S)[i := t'] ! j) (cs[i := c'] ! j)" if "j < length conns" for j
    using assms(1,4) that by (cases "j = i") (simp_all add: served_as_def)
  with assms(1-3) show ?thesis by (simp add: served_as_def)
qed

lemma served_as_forward:
  assumes "sys_step s auth S S'" and "served_as s sd conns S X"
  shows "\<exists>X'. served_as s sd conns S' X' \<and> spec_runs sd auth X X'"
proof -
  obtain A cs where X: "X = (A, cs)" by fastforce
  from assms(2) have m: "backed_store (sys_heap S) s" "seals (sys_heap S) s = sd"
    "abs_store (sys_heap S) s = A" "length (sys_tasks S) = length conns" "length cs = length conns"
    "\<And>i. i < length conns \<Longrightarrow> matches (conns ! i) (sys_tasks S ! i) (cs ! i)"
    by (auto simp: X served_as_def)
  from assms(1) obtain i h' t' where S': "S' = \<lparr>sys_heap = h', sys_tasks = (sys_tasks S)[i := t']\<rparr>"
    and i: "i < length (sys_tasks S)" and t: "task_step s auth (sys_heap S) (sys_tasks S ! i) h' t'"
    by (rule sys_stepE)
  note sh = task_sim_shared [OF t m(1)]
  from i m(4) have "i < length conns" by simp
  from task_sim [OF t m(1) m(6) [OF this]] obtain cl' where
    cl': "matches (conns ! i) t' cl'" and st: "client_step sd auth A (cs ! i) (abs_store h' s) cl' \<or>
      h' = sys_heap S \<and> cl' = cs ! i" by (auto simp: m(2,3) simulated_def)
  have "served_as s sd conns S' (abs_store h' s, cs[i := cl'])"
    unfolding S' using sh m(2) cl' by (intro served_as_update [OF assms(2) [unfolded X]]) simp_all
  moreover have "spec_runs sd auth X (abs_store h' s, cs[i := cl'])" using st
  proof
    assume "client_step sd auth A (cs ! i) (abs_store h' s) cl'"
    with i m(4,5) show ?thesis unfolding X by (intro r_into_rtranclp moves) simp_all
  qed (simp add: X m(3))
  ultimately show ?thesis by blast
qed

lemma served_as_backward:
  assumes "spec_step sd auth X X'" and "served_as s sd conns S X"
  shows "\<exists>S'. sys_step s auth S S' \<and> served_as s sd conns S' X'"
proof -
  obtain A cs where X: "X = (A, cs)" by fastforce
  from assms(2) have m: "backed_store (sys_heap S) s" "seals (sys_heap S) s = sd"
    "abs_store (sys_heap S) s = A" "length (sys_tasks S) = length conns" "length cs = length conns"
    "\<And>i. i < length conns \<Longrightarrow> matches (conns ! i) (sys_tasks S ! i) (cs ! i)"
    by (auto simp: X served_as_def)
  from assms(1) obtain i A' c' where X': "X' = (A', cs[i := c'])" and i: "i < length cs"
    and c: "client_step sd auth A (cs ! i) A' c'" unfolding X by (rule spec_stepE)
  from task_sim_back [of "sys_heap S" s auth "cs ! i" A' c' "conns ! i" "sys_tasks S ! i"] c m i
  obtain h' t' where t: "task_step s auth (sys_heap S) (sys_tasks S ! i) h' t'" "abs_store h' s = A'"
    "matches (conns ! i) t' c'" by auto
  note sh = task_sim_shared [OF t(1) m(1)]
  have "served_as s sd conns \<lparr>sys_heap = h', sys_tasks = (sys_tasks S)[i := t']\<rparr> (abs_store h' s, cs[i := c'])"
    using sh m(2) t(3) by (intro served_as_update [OF assms(2) [unfolded X]]) simp_all
  moreover from i m(4,5) have "i < length (sys_tasks S)" by simp
  ultimately show ?thesis unfolding X' t(2) [symmetric] using sys_step.runs [OF _ t(1)] by blast
qed

text \<open>Each simulates the other.\<close>

interpretation forward: simulation "sys_step s auth" "spec_step sd auth" "served_as s sd conns"
  for s auth sd conns
  by unfold_locales (blast dest: served_as_forward)

interpretation backward: simulation "spec_step sd auth" "sys_step s auth" "\<lambda>X S. served_as s sd conns S X"
  for s auth sd conns
  by unfold_locales (blast dest: served_as_backward)

section \<open>Every request is answered\<close>

text \<open>
  A reply to a request carries its transaction and its unit identifier, and its function code or the
  exception of it.
\<close>

definition answers :: "Request \<Rightarrow> bytes \<Rightarrow> bool" where
  "answers q f \<longleftrightarrow>
     (\<exists>pdu. f = BuildResponse q pdu \<and> pdu \<noteq> [] \<and> hd pdu \<in> {FunctionCode q, FunctionCode q OR 0x80})"

definition acknowledges :: "Packet \<Rightarrow> bytes \<Rightarrow> bool" where
  "acknowledges p f \<longleftrightarrow> f = [RespOK] \<or> f = [RespRejected]"

lemma reply_answers: "answers q (BuildResponse q (reply_wire (FunctionCode q) (Payload q) res))"
  unfolding answers_def by (intro exI [of _ "reply_wire (FunctionCode q) (Payload q) res"], cases res) auto

lemma refusal_answers: "\<not> passes sd auth src A q \<Longrightarrow> answers q (BuildResponse q (snd (request_spec sd auth src A q)))"
  by (auto simp: answers_def passes_def request_spec_def BuildExceptionPDU_def)

text \<open>What a client has received answers the requests it has no more to send, in order.\<close>

fun answered_so_far :: "client \<Rightarrow> client \<Rightarrow> bool" where
  "answered_so_far (Asker src0 q0 qs0 out0) (Asker src q qs out) \<longleftrightarrow>
     (\<exists>past. qs0 = past @ (case q of None \<Rightarrow> [] | Some q \<Rightarrow> [q]) @ qs \<and> list_all2 answers past out)"
| "answered_so_far (Feeder ps0 out0) (Feeder ps out) \<longleftrightarrow>
     (\<exists>past. ps0 = past @ ps \<and> list_all2 acknowledges past out)"
| "answered_so_far _ _ \<longleftrightarrow> False"

lemma client_step_answers:
  assumes "client_step sd auth A c A' c'" and "answered_so_far c0 c"
  shows "answered_so_far c0 c'"
  using assms
proof (induction rule: client_step.induct)
  case (refuses src A q qs out)
  then obtain src0 q0 qs0 out0 past where c0: "c0 = Asker src0 q0 qs0 out0" and
    p: "qs0 = past @ q # qs" "list_all2 answers past out" by (cases c0) auto
  with refusal_answers [OF refuses(1)] have "qs0 = (past @ [q]) @ qs \<and>
      list_all2 answers (past @ [q]) (out @ [BuildResponse q (snd (request_spec sd auth src A q))])"
    by (simp add: list_all2_appendI)
  with c0 show ?case by auto
next
  case (passes src A q qs out)
  then show ?case by (cases c0) auto
next
  case (executes A q A' res src qs out)
  then obtain src0 q0 qs0 out0 past where c0: "c0 = Asker src0 q0 qs0 out0" and
    p: "qs0 = past @ q # qs" "list_all2 answers past out" by (cases c0) auto
  with reply_answers [of q res] have "qs0 = (past @ [q]) @ qs \<and>
      list_all2 answers (past @ [q]) (out @ [BuildResponse q (reply_wire (FunctionCode q) (Payload q) res)])"
    by (simp add: list_all2_appendI)
  with c0 show ?case by auto
next
  case (ingests A p A' res ps out)
  then obtain ps0 out0 past where c0: "c0 = Feeder ps0 out0" and
    p: "ps0 = past @ p # ps" "list_all2 acknowledges past out" by (cases c0) auto
  then have "ps0 = (past @ [p]) @ ps \<and> list_all2 acknowledges (past @ [p]) (out @ [[status_of res]])"
    by (simp add: list_all2_appendI acknowledges_def status_of_def)
  with c0 show ?case by auto
qed

lemma spec_runs_answers:
  assumes "spec_runs sd auth X X'" and "list_all2 answered_so_far cs0 (snd X)"
  shows "list_all2 answered_so_far cs0 (snd X')"
  using assms
proof (induction rule: rtranclp_induct)
  case (step X1 X2)
  from step.hyps(2) show ?case
  proof (cases rule: spec_step.cases)
    case (moves i cs A A' c')
    have l: "list_all2 answered_so_far cs0 cs" using step moves(1) by simp
    with moves(3) have "answered_so_far (cs0 ! i) (cs ! i)" by (simp add: list_all2_conv_all_nth)
    from client_step_answers [OF moves(4) this] l
    have "list_all2 answered_so_far (cs0[i := cs0 ! i]) (cs[i := c'])" by (intro list_all2_update_cong)
    then show ?thesis by (simp add: moves(2))
  qed
qed

lemma answered_start: "list_all2 answered_so_far (map client_of conns) (map client_of conns)"
proof -
  have "answered_so_far (client_of c) (client_of c)" for c
    by (simp add: client_of_def split: task.splits)
  then show ?thesis by (simp add: list_all2_conv_all_nth)
qed

text \<open>What a client finds on its connection when it is closed.\<close>

definition fully_answered :: "Conn \<Rightarrow> task \<Rightarrow> bool" where
  "fully_answered c t \<longleftrightarrow>
     (\<exists>c' frames tail. t = Done c' \<and> closed c' \<and> sent c' = sent c @ frames @ tail \<and>
        (case initial_task c of
           ModbusTask port src ph d \<Rightarrow> list_all2 answers (requests_in port (incoming c)) frames \<and> tail = []
         | RawTask port d \<Rightarrow> list_all2 acknowledges (packets_in port (incoming c)) frames \<and>
             (tail = [] \<or> tail = [[RespRejected]])
         | Done d \<Rightarrow> frames = [] \<and> tail = []))"

lemma matches_done_answered:
  assumes "matches c t cl" and "is_done t" and "answered_so_far (client_of c) cl"
  shows "fully_answered c t"
proof -
  from assms(2) obtain c' where t: "t = Done c'" by (cases t) auto
  with assms(1) obtain tail where m: "idle cl" "closed c'" "sent c' = sent c @ replies_of cl @ tail"
    "tail = [] \<or> tail = [[RespRejected]] \<and> (\<exists>port d. initial_task c = RawTask port d)" by auto
  from m(1,4) assms(3) show ?thesis
    by (cases cl; cases "initial_task c")
       (auto simp: fully_answered_def t m(2,3) client_of_def)
qed

lemma serving_answers:
  assumes "backed_store h s" and "\<forall>c \<in> set conns. writable c"
    and "runs_to s auth (serving h conns) S" and "list_all is_done (sys_tasks S)"
  shows "list_all2 fully_answered conns (sys_tasks S)"
proof -
  from forward.runs [OF assms(3) served_as_start [OF assms(1,2)]] obtain X where
    X: "served_as s (seals h s) conns S X" "spec_runs (seals h s) auth (abs_store h s, map client_of conns) X"
    by blast
  from spec_runs_answers [OF X(2), of "map client_of conns"] answered_start
  have "list_all2 answered_so_far (map client_of conns) (snd X)" by simp
  with X(1) assms(4) show ?thesis
    by (auto simp: served_as_def list_all2_conv_all_nth list_all_length intro!: matches_done_answered)
qed

end
