(* ===== verification/Isolation.thy ===== *)
theory Isolation
  imports Replies
begin

text \<open>
  Clients of different ports do not see each other: what the clients of one port get, and what the
  memories of that port hold, is what they would be if no other client were there.
\<close>

context frame_decoder
begin

lemma frames_in_valid: "f \<in> set (frames_in decode r) \<Longrightarrow> valid f"
proof (induction "length (pending r)" arbitrary: r rule: less_induct)
  case less
  show ?case
  proof (cases "decode r")
    case (Pair res r')
    show ?thesis
    proof (cases res)
      case (Ok g)
      with Pair have d: "decode r = (Ok g, r')" by simp
      from less.prems consider "f = g" | "f \<in> set (frames_in decode r')"
        by (auto simp: frames_in_step [OF d])
      then show ?thesis
        using less.hyps [OF decode_shrinks [OF d]] decode_sound [OF d] by cases blast+
    qed (use less.prems Pair in \<open>cases "length (pending r)"; simp add: frames_in_def\<close>)+
  qed
qed

end

section \<open>The abstract machine, seen from a set of memories\<close>

fun client_within :: "(MemoryID \<Rightarrow> bool) \<Rightarrow> client \<Rightarrow> bool" where
  "client_within M (Asker src q qs out) \<longleftrightarrow>
     (\<forall>r \<in> set_option q \<union> set qs. M (memory_id r))"
| "client_within M (Feeder ps out) \<longleftrightarrow> (\<forall>p \<in> set ps. M (packet_id p))"

definition agree :: "(MemoryID \<Rightarrow> bool) \<Rightarrow> appliance \<Rightarrow> appliance \<Rightarrow> bool" where
  "agree M A B \<longleftrightarrow> (\<forall>mid. M mid \<longrightarrow> A mid = B mid)"

lemma exec_command_other:
  "exec_command A mid c = (A', res) \<Longrightarrow> j \<noteq> mid \<Longrightarrow> A' j = A j"
  by (induction A mid c rule: exec_command.induct) (auto split: option.splits if_splits)

lemma exec_command_local:
  "exec_command A mid c = (A', res) \<Longrightarrow> A mid = B mid \<Longrightarrow>
    \<exists>B'. exec_command B mid c = (B', res) \<and> B' mid = A' mid"
  by (induction A mid c rule: exec_command.induct) (auto split: option.splits if_splits)

lemma exec_command_agree:
  assumes "exec_command A mid c = (A', res)" and "M mid" and "agree M A B"
  shows "\<exists>B'. exec_command B mid c = (B', res) \<and> agree M A' B'"
proof -
  from assms obtain B' where B: "exec_command B mid c = (B', res)" "B' mid = A' mid"
    using exec_command_local [OF assms(1), of B] by (auto simp: agree_def)
  from exec_command_other [OF assms(1)] exec_command_other [OF B(1)] assms(3) B(2)
  have "agree M A' B'" unfolding agree_def by metis
  with B(1) show ?thesis by blast
qed

lemma exec_command_outside: "exec_command A mid c = (A', res) \<Longrightarrow> \<not> M mid \<Longrightarrow> agree M A A'"
  unfolding agree_def by (metis exec_command_other)

lemma sealed_in_agree: "agree M A B \<Longrightarrow> M mid \<Longrightarrow> sealed_in sd A mid = sealed_in sd B mid"
  by (simp add: sealed_in_def agree_def)

lemma client_step_inside:
  assumes "client_step sd auth A c A' c'" and "client_within M c" and "agree M A B"
  shows "\<exists>B'. client_step sd auth B c B' c' \<and> agree M A' B' \<and> client_within M c'"
  using assms
proof (induction rule: client_step.induct)
  case (refuses src A q qs out)
  then have p: "passes sd auth src B q = passes sd auth src A q"
    "snd (request_spec sd auth src B q) = snd (request_spec sd auth src A q)"
    using refuses.hyps sealed_in_agree [OF refuses.prems(2), of "memory_id q" sd]
    by (auto simp: passes_def request_spec_def)
  with refuses client_step.refuses [of sd auth src B q qs out] show ?case by auto
next
  case (passes src A q qs out)
  then have "passes sd auth src B q"
    using sealed_in_agree [OF passes.prems(2), of "memory_id q" sd] by (simp add: passes_def)
  with passes client_step.passes [of sd auth src B q qs out] show ?case by auto
next
  case (executes A q A' res src qs out)
  then have "M (memory_id q)" by simp
  from exec_command_agree [OF executes.hyps this executes.prems(2)] executes.prems(1)
  show ?case by (auto intro: client_step.executes)
next
  case (ingests A p A' res ps out)
  then have "M (packet_id p)" by simp
  from exec_command_agree [OF ingests.hyps this ingests.prems(2)] ingests.prems(1)
  show ?case by (auto intro: client_step.ingests)
qed

lemma client_step_outside:
  assumes "client_step sd auth A c A' c'" and "client_within (\<lambda>mid. \<not> M mid) c"
  shows "agree M A A' \<and> client_within (\<lambda>mid. \<not> M mid) c'"
  using assms
  by (induction rule: client_step.induct) (auto simp: exec_command_outside, auto simp: agree_def)

text \<open>The clients a mask keeps.\<close>

definition keep :: "bool list \<Rightarrow> 'a list \<Rightarrow> 'a list" where
  "keep ms xs = map snd (filter fst (zip ms xs))"

lemma keep_simps [simp]:
  "keep [] xs = []" "keep ms [] = []" "keep (m # ms) (x # xs) = (if m then x # keep ms xs else keep ms xs)"
  by (simp_all add: keep_def)

lemma keep_map: "keep (map P xs) (map f xs) = map f (filter P xs)"
  by (induction xs) simp_all

lemma keep_update_out: "\<not> ms ! i \<Longrightarrow> i < length ms \<Longrightarrow> keep ms (xs[i := y]) = keep ms xs"
proof (induction ms arbitrary: i xs)
  case (Cons m ms)
  then show ?case by (cases i; cases xs) auto
qed simp

lemma keep_update_in:
  "ms ! i \<Longrightarrow> i < length ms \<Longrightarrow> i < length xs \<Longrightarrow>
    \<exists>k < length (keep ms xs). keep ms xs ! k = xs ! i \<and>
      (\<forall>y. keep ms (xs[i := y]) = (keep ms xs)[k := y])"
proof (induction ms arbitrary: i xs)
  case (Cons m ms)
  then obtain x ys where xs: "xs = x # ys" by (cases xs) auto
  show ?case
  proof (cases i)
    case 0
    with Cons.prems show ?thesis by (auto simp: xs intro!: exI [of _ 0])
  next
    case (Suc j)
    with Cons.prems Cons.IH [of j ys] obtain k where "k < length (keep ms ys)" "keep ms ys ! k = ys ! j"
      "\<forall>y. keep ms (ys[j := y]) = (keep ms ys)[k := y]" by (auto simp: xs)
    then show ?thesis
      by (intro exI [of _ "if m then Suc k else k"]) (simp add: xs Suc)
  qed
qed simp

definition split_by :: "(MemoryID \<Rightarrow> bool) \<Rightarrow> bool list \<Rightarrow> client list \<Rightarrow> bool" where
  "split_by M ms cs \<longleftrightarrow>
     list_all2 (\<lambda>m c. client_within (if m then M else (\<lambda>mid. \<not> M mid)) c) ms cs"

lemma spec_step_project:
  assumes "spec_step sd auth (A, cs) (A', cs')" and "split_by M ms cs" and "agree M A B"
  shows "\<exists>B'. spec_runs sd auth (B, keep ms cs) (B', keep ms cs') \<and> agree M A' B' \<and> split_by M ms cs'"
proof -
  from assms(1) obtain i c' where i: "i < length cs" "cs' = cs[i := c']"
    and c: "client_step sd auth A (cs ! i) A' c'" by (auto elim: spec_stepE)
  from assms(2) i(1) have im: "i < length ms"
    and w: "client_within (if ms ! i then M else (\<lambda>mid. \<not> M mid)) (cs ! i)"
    by (auto simp: split_by_def list_all2_conv_all_nth)
  have sp: "split_by M ms cs'" if "client_within (if ms ! i then M else (\<lambda>mid. \<not> M mid)) c'"
    using list_all2_update_cong [OF assms(2) [unfolded split_by_def], of "ms ! i" c' i] that i(2)
    by (simp add: split_by_def)
  show ?thesis
  proof (cases "ms ! i")
    case True
    with w client_step_inside [OF c _ assms(3)] obtain B' where
      B: "client_step sd auth B (cs ! i) B' c'" "agree M A' B'" "client_within M c'" by auto
    from keep_update_in [of ms i cs] True im i(1) obtain k where
      k: "k < length (keep ms cs)" "keep ms cs ! k = cs ! i" "keep ms cs' = (keep ms cs)[k := c']"
      by (auto simp: i(2))
    have "spec_step sd auth (B, keep ms cs) (B', keep ms cs')"
      unfolding k(3) using B(1) k(2) by (intro moves [OF k(1)]) simp
    with B(2,3) sp True show ?thesis by auto
  next
    case False
    with w client_step_outside [OF c] have o: "agree M A A'" "client_within (\<lambda>mid. \<not> M mid) c'" by auto
    from o(1) assms(3) have "agree M A' B" by (simp add: agree_def)
    with o(2) sp False keep_update_out [of ms i cs c'] im i(2) show ?thesis by auto
  qed
qed

text \<open>What the machine does, seen through \<open>M\<close>, is what the clients within \<open>M\<close> do alone.\<close>

definition seen :: "(MemoryID \<Rightarrow> bool) \<Rightarrow> bool list \<Rightarrow> appliance \<times> client list \<Rightarrow> appliance \<times> client list \<Rightarrow> bool" where
  "seen M ms X Y \<longleftrightarrow> agree M (fst X) (fst Y) \<and> split_by M ms (snd X) \<and> snd Y = keep ms (snd X)"

interpretation projection: simulation "spec_step sd auth" "spec_step sd auth" "seen M ms" for sd auth M ms
proof
  fix X Y X'
  assume "seen M ms X Y" and "spec_step sd auth X X'"
  with spec_step_project [of sd auth "fst X" "snd X" "fst X'" "snd X'" M ms "fst Y"] obtain B where
    "spec_runs sd auth (fst Y, keep ms (snd X)) (B, keep ms (snd X'))" "agree M (fst X') B"
    "split_by M ms (snd X')" by (auto simp: seen_def)
  with \<open>seen M ms X Y\<close> show "\<exists>Y'. spec_runs sd auth Y Y' \<and> seen M ms X' Y'"
    by (intro exI [of _ "(B, keep ms (snd X'))"]) (simp add: seen_def, metis prod.collapse)
qed

section \<open>Ports\<close>

definition on_port :: "u16 \<Rightarrow> Conn \<Rightarrow> bool" where
  "on_port p c \<longleftrightarrow> (case local_port c of None \<Rightarrow> False | Some lp \<Rightarrow> of_nat lp = p)"

lemma client_of_port:
  assumes "\<And>lp. local_port c = Some lp \<Longrightarrow> on (of_nat lp)"
  shows "client_within (\<lambda>mid. on (Port mid)) (client_of c)"
proof -
  have mb: "on (Port (memory_id q))" if "q \<in> set (requests_in (of_nat lp) r)" "local_port c = Some lp" for q r lp
    using modbus_frames.frames_in_valid [OF that(1)] assms [OF that(2)]
    by (simp add: request_valid_def memory_id_def)
  have raw: "on (Port (packet_id p))" if "p \<in> set (packets_in (of_nat lp) r)" "local_port c = Some lp" for p r lp
    using raw_frames.frames_in_valid [OF that(1)] assms [OF that(2)]
    by (simp add: packet_valid_def packet_id_def)
  show ?thesis
    using mb raw by (auto simp: client_of_def initial_task_def raw_task_def modbus_task_def split: option.splits)
qed

lemma split_by_port: "split_by (\<lambda>mid. Port mid = p) (map (on_port p) conns) (map client_of conns)"
proof -
  have "client_within (if on_port p c then \<lambda>mid. Port mid = p else (\<lambda>mid. Port mid \<noteq> p)) (client_of c)" for c
    using client_of_port [of c "\<lambda>q. q = p"] client_of_port [of c "\<lambda>q. q \<noteq> p"]
    by (auto simp: on_port_def split: option.splits)
  then show ?thesis by (simp add: split_by_def list_all2_conv_all_nth)
qed

end
