(* ===== verification/ReplyClaims.thy ===== *)
theory ReplyClaims
  imports Examples Gates Isolation
begin

text \<open>
  The properties of the appliance as all its clients see it at once.
\<close>







end
