(* ===== verification/Spec2Isabelle.thy ===== *)
theory Spec2Isabelle
  imports AuthClaims MemClaims ModbusClaims RawIngestClaims RawV1Claims ConfigClaims SystemClaims
    GateClaims ReplyClaims
begin

text \<open>
  MMA2 is a memory appliance: a process that keeps blocks of coils, discrete inputs and registers and
  serves them to Modbus TCP clients (read and write, behind access rules and a sealing bit) and to
  raw ingest clients (write only). This development is a shallow embedding of its Go code.

  The program and its parts. \<open>cmd/mma2/main.go\<close> loads a configuration (\<open>internal/config/loader.go\<close>),
  validates it (\<open>validate.go\<close>), builds the store of memories (\<open>build_memory_store.go\<close>) and the access
  rules (\<open>build_authority_policies.go\<close>) and starts one listener per gate. A listener
  (\<open>internal/ingress\<close>) runs every accepted connection as a goroutine: it looks at the first two bytes
  and gives the connection to \<open>internal/transport/rawingest\<close> or \<open>internal/transport/modbus\<close>. Both
  resolve a memory by (port, unit identifier) in the store of \<open>internal/memorycore\<close> and read or write
  one of its four areas; Modbus asks \<open>internal/authority\<close> first. \<open>internal/transport/raw\<close> is an older
  raw protocol that nothing starts; its files memory\_adapter.go and resolver.go bind it to a package
  \<open>internal/runtime\<close> that is not in the repository.

  The theories, from the ground up.

  \<^item> \<open>Mma_Prelude\<close>: words, the type \<open>outcome\<close> of calls (a value, an error, a panic), bits and big-endian
    words in byte lists, the lemmas all components share.
  \<^item> \<open>GoNet\<close>, \<open>GoIo\<close>: what the code uses of strings, strconv, net and net/netip, and byte streams and
    connections with failing reads and writes. \<open>GoIo\<close> states the contract \<open>frame_decoder\<close> of a decoder
    that takes one frame at a time; all three protocols interpret it.
  \<^item> \<open>MemLayout\<close> (area.go, layout.go, memory_id.go, errors.go), \<open>MemBits\<close> (bits.go), \<open>MemCore\<close>
    (memory.go, state_sealing.go), \<open>MemStore\<close> (store.go): the data and every operation of memorycore. A
    \<open>Memory\<close> keeps its slices as lists; the store maps identities to references into a \<open>Heap\<close>, because
    the code shares pointers. \<open>MemRefine\<close> relates a memory to the partial map \<open>cell_at\<close> from addresses to
    cells and proves each operation against it; \<open>CellArea\<close> states the contract \<open>cell_area\<close> of an area and
    interprets it on all four; \<open>KeyedStore\<close> is the contract of a keyed table (the store, the policies,
    the sealing flags); \<open>StoreFrame\<close> is the frame condition of a step on the store.
  \<^item> \<open>Appliance\<close>: the abstract specification, a map from identities to cells with read, write and reject
    commands.
  \<^item> \<open>DecisionList\<close>, \<open>Authority\<close>, \<open>AuthorityLaws\<close>: matchers, rules, sealing flags, evaluation; first-match
    lists as a contract.
  \<^item> \<open>ModbusPdu\<close> (request, PDU and MBAP files), \<open>ModbusDispatch\<close> (dispatch_memorycore.go), \<open>ModbusConn\<close>
    (handle_conn.go), with \<open>ModbusSpec\<close> (each handler implements the command its request denotes) and
    \<open>ModbusSafety\<close> (no panic, no effect outside the addressed memory).
  \<^item> \<open>RawIngest\<close>, \<open>RawIngestSpec\<close>: the raw protocol and its refinement. \<open>RawV1\<close>: the older one, over any
    backend; \<open>RawV1Runtime\<close>: the backend of memory\_adapter.go and resolver.go, over any runtime.
  \<^item> \<open>Sessions\<close>: what a client of either protocol sees, as a specification on the abstract appliance, and
    the proof that the connections behave like it.
  \<^item> \<open>Config\<close>, \<open>ConfigBuild\<close> with \<open>ConfigLaws\<close>, \<open>BuildLaws\<close>: the configuration tree, validation, loading and
    both builders; exactly what they accept and what they build.
  \<^item> \<open>Ingress\<close>, \<open>Startup\<close>: classification, \<open>main\<close> up to the listeners, one accepted connection. Maps that
    Go visits in an order of its own are lists; \<open>MemoryID\<close> is an instance of \<open>linorder\<close>, and installing
    the policies in any order is installing them in that one.
  \<^item> \<open>Interleave\<close>: all connections at once, as a step relation. One step is one locked call on shared
    state; between the checks of a request and its dispatch other connections run. The contract
    \<open>interference\<close> turns a property of single steps into an invariant of every schedule. \<open>Linearize\<close>:
    every schedule has the effect of a sequence of commands of the clients. \<open>SealDrain\<close>: what can still
    change a memory after it has been sealed.
  \<^item> \<open>Gates\<close>: the process, that is \<open>main\<close> from its loop over the gates to \<open>select\<close>, and \<open>ListenAndServe\<close>:
    goroutines of gates that listen, accept and start connections, and the two ways the process ends.
    What \<open>net.Listen\<close> and \<open>Accept\<close> return is a parameter. Every state of the process is a state of
    \<open>Interleave\<close> with the connections accepted so far.
  \<^item> \<open>Simulation\<close>: the contract of a forward simulation. \<open>Replies\<close>: the abstract machine of all clients
    at once, each a list of requests and of replies, and the proof that the connections have exactly
    its behaviours (each simulates the other). \<open>Isolation\<close>: the clients of one port, seen without those
    of the others, by a simulation of the machine by itself.
  \<^item> \<open>Examples\<close> and the theories whose names end in \<open>Claims\<close>: the properties, each applied to a concrete
    appliance.

  What the properties show. The dispatcher and the raw protocol refine the abstract appliance, on
  stores whose bit areas have backing bytes; on every store they never panic and touch one memory
  only. Connections served at the same time reach exactly the states of the abstract machine, and one
  that is alone does what its handler does. A started appliance holds exactly the declared memories
  and rules; its process takes a bounded number of steps and ends up serving every offered connection
  to its end, or exits because a gate cannot listen or because there is none; when it serves, every
  request has got its reply, in order, and what the clients of a port see is what they would see
  without the clients of other ports. A memory the rules do not let anybody write, or that is
  sealed, does not change under any schedule of Modbus connections; requests already past the sealing
  check are the exception: a run shows one, and a bound counts them. Wire formats round-trip. The
  bounds at which the 8 and 16 bit sizes of the code wrap are stated as theorems, and so are the
  effects the findings of the manifest name.

  Bounds. Machine integers are words, so sums wrap as in Go; lengths and int are naturals or
  integers, far from 64 bits. Loops are total functions with a termination proof: the bit and
  register loops count, the connection loops consume input. The only fuel is the length of a stream,
  for the list of its frames, and every frame has a byte.

  Not modelled. Log output and the text of errors; time: a connection is the bytes its peer will send,
  how the stream ends and which writes fail, a gate the results of \<open>Accept\<close> before it blocks for good;
  reading the file and parsing YAML, which are parameters of \<open>Load\<close>; the address of a connection as
  anything but a port and the text of an IP; \<open>internal/runtime\<close>, which is not in the repository and is a
  parameter of \<open>RawV1Runtime\<close>; the package \<open>internal/domain\<close>, whose files have a package clause only;
  the demonstration programs under \<open>tools\<close>, one of which is commented out and the other a test.
\<close>

end
